theory Spec2Isabelle
  imports Main "HOL-Library.Signed_Division"
begin

section \<open>Space Invaders: the simulation of \<^verbatim>\<open>space_invaders.c\<close>\<close>

text \<open>
  The game logic of \<^verbatim>\<open>space_invaders.c\<close> is embedded as functions on an explicit
  game state. The C type \<^verbatim>\<open>int\<close> is modelled by the mathematical integers: signed
  overflow is undefined behaviour in C, so the model speaks about executions in which
  no arithmetic operation leaves the range of \<^verbatim>\<open>int\<close>; the last section shows that
  these are all executions from the start of the process. The function
  \<^verbatim>\<open>rect_collide\<close>, which is stated for all rectangles, is given on 32-bit integers as
  well. Division \<^verbatim>\<open>/\<close> of C truncates
  towards zero and is written \<open>sdiv\<close>. The fixed-size arrays \<^verbatim>\<open>bullets[MAX_BULLETS]\<close>
  and \<^verbatim>\<open>aliens[ALIEN_COUNT]\<close> are lists; the predicate \<open>arrays_ok\<close> states that they
  have the declared sizes. SDL window, texture, font and rendering calls do not
  touch the game state and are left out, as is the flag \<^verbatim>\<open>gRunning\<close>, which only
  ends the main loop.
\<close>

subsection \<open>Constants (the \<^verbatim>\<open>#define\<close>s)\<close>

definition WINDOW_WIDTH :: int where "WINDOW_WIDTH = 640"
definition WINDOW_HEIGHT :: int where "WINDOW_HEIGHT = 480"

definition PLAYER_SPEED :: int where "PLAYER_SPEED = 5"
definition PLAYER_WIDTH :: int where "PLAYER_WIDTH = 32"
definition PLAYER_HEIGHT :: int where "PLAYER_HEIGHT = 32"
definition PLAYER_LIVES :: int where "PLAYER_LIVES = 3"

definition BULLET_SPEED :: int where "BULLET_SPEED = 7"
definition BULLET_WIDTH :: int where "BULLET_WIDTH = 4"
definition BULLET_HEIGHT :: int where "BULLET_HEIGHT = 10"
definition MAX_BULLETS :: nat where "MAX_BULLETS = 5"

definition ALIEN_COUNT :: nat where "ALIEN_COUNT = 8"
definition ALIEN_WIDTH :: int where "ALIEN_WIDTH = 32"
definition ALIEN_HEIGHT :: int where "ALIEN_HEIGHT = 32"
definition ALIEN_START_X :: int where "ALIEN_START_X = 50"
definition ALIEN_START_Y :: int where "ALIEN_START_Y = 50"
definition ALIEN_SPACING :: int where "ALIEN_SPACING = 50"
definition ALIEN_SPEED :: int where "ALIEN_SPEED = 1"
definition ALIEN_DESCENT :: int where "ALIEN_DESCENT = 20"

lemmas int_consts =
  WINDOW_WIDTH_def WINDOW_HEIGHT_def PLAYER_SPEED_def PLAYER_WIDTH_def
  PLAYER_HEIGHT_def PLAYER_LIVES_def BULLET_SPEED_def BULLET_WIDTH_def
  BULLET_HEIGHT_def ALIEN_WIDTH_def ALIEN_HEIGHT_def ALIEN_START_X_def
  ALIEN_START_Y_def ALIEN_SPACING_def ALIEN_SPEED_def ALIEN_DESCENT_def

subsection \<open>Data structures\<close>

text \<open>The structs \<^verbatim>\<open>Player\<close>, \<^verbatim>\<open>Bullet\<close> and \<^verbatim>\<open>Alien\<close>; the field names carry a
  prefix because record fields are global constants.\<close>

record Player =
  p_x :: int
  p_y :: int
  p_w :: int
  p_h :: int
  p_vx :: int

record Bullet =
  b_x :: int
  b_y :: int
  b_w :: int
  b_h :: int
  b_active :: bool

record Alien =
  a_x :: int
  a_y :: int
  a_w :: int
  a_h :: int
  a_active :: bool

text \<open>The globals \<^verbatim>\<open>gGameOver\<close>, \<^verbatim>\<open>gLives\<close>, \<^verbatim>\<open>gScore\<close>, \<^verbatim>\<open>gAlienMoveDir\<close> and the
  locals \<^verbatim>\<open>player\<close>, \<^verbatim>\<open>bullets\<close>, \<^verbatim>\<open>aliens\<close> of \<^verbatim>\<open>main\<close>.\<close>

record game =
  gGameOver :: bool
  gLives :: int
  gScore :: int
  gAlienMoveDir :: int
  player :: Player
  bullets :: "Bullet list"
  aliens :: "Alien list"

definition arrays_ok :: "game \<Rightarrow> bool" where
  "arrays_ok s \<longleftrightarrow> length (bullets s) = MAX_BULLETS \<and> length (aliens s) = ALIEN_COUNT"

subsection \<open>Collision check\<close>

text \<open>The test of \<^verbatim>\<open>rect_collide\<close>, read on the mathematical integers. This is the form
  the game model uses; it is exact whenever the four sums fit into an \<^verbatim>\<open>int\<close>.\<close>

definition rect_collide :: "int \<Rightarrow> int \<Rightarrow> int \<Rightarrow> int \<Rightarrow> int \<Rightarrow> int \<Rightarrow> int \<Rightarrow> int \<Rightarrow> bool" where
  "rect_collide x1 y1 w1 h1 x2 y2 w2 h2 \<longleftrightarrow>
     (x1 < x2 + w2) \<and> (x1 + w1 > x2) \<and> (y1 < y2 + h2) \<and> (y1 + h1 > y2)"

text \<open>The same function on 32-bit machine integers. \<open>int32\<close> is the range of \<^verbatim>\<open>int\<close>, and
  \<open>wrap32\<close> is the value that a 32-bit sum has in the compiled program: the sum modulo
  \<open>2^32\<close>, read as a signed number. The function can be called with any arguments of
  type \<^verbatim>\<open>int\<close>, so its four sums can leave the range.\<close>

definition int32 :: "int \<Rightarrow> bool" where
  "int32 k \<longleftrightarrow> - 2147483648 \<le> k \<and> k \<le> 2147483647"

definition wrap32 :: "int \<Rightarrow> int" where
  "wrap32 k = (k + 2147483648) mod 4294967296 - 2147483648"

definition rect_collide_int32 ::
    "int \<Rightarrow> int \<Rightarrow> int \<Rightarrow> int \<Rightarrow> int \<Rightarrow> int \<Rightarrow> int \<Rightarrow> int \<Rightarrow> bool" where
  "rect_collide_int32 x1 y1 w1 h1 x2 y2 w2 h2 \<longleftrightarrow>
     (x1 < wrap32 (x2 + w2)) \<and> (wrap32 (x1 + w1) > x2) \<and>
     (y1 < wrap32 (y2 + h2)) \<and> (wrap32 (y1 + h1) > y2)"

subsection \<open>Loops\<close>

text \<open>\<^verbatim>\<open>for (int i = 0; i < n; i++) body\<close>, for a body without \<^verbatim>\<open>break\<close>: the bodies
  for \<open>0\<close>, ..., \<open>n - 1\<close> run in this order.\<close>

primrec for_upto :: "nat \<Rightarrow> (nat \<Rightarrow> 's \<Rightarrow> 's) \<Rightarrow> 's \<Rightarrow> 's" where
  "for_upto 0 body s = s"
| "for_upto (Suc n) body s = body n (for_upto n body s)"

text \<open>A loop whose body only assigns to element \<open>i\<close> of one array.\<close>

definition for_each :: "nat \<Rightarrow> (nat \<Rightarrow> 'a \<Rightarrow> 'a) \<Rightarrow> 'a list \<Rightarrow> 'a list" where
  "for_each n f xs = for_upto n (\<lambda>i ys. ys[i := f i (ys ! i)]) xs"

text \<open>A scanning loop that leaves with \<^verbatim>\<open>break\<close> at the first index that passes the test:
  the index it stops at, if any.\<close>

definition first_index :: "nat \<Rightarrow> (nat \<Rightarrow> bool) \<Rightarrow> nat option" where
  "first_index n P = find P [0..<n]"

subsection \<open>Start of the process and \<^verbatim>\<open>resetGame\<close>\<close>

definition init :: game where
  "init = \<lparr>
     gGameOver = False,
     gLives = PLAYER_LIVES,
     gScore = 0,
     gAlienMoveDir = 1,
     player = \<lparr> p_x = (WINDOW_WIDTH - PLAYER_WIDTH) sdiv 2,
                p_y = WINDOW_HEIGHT - (PLAYER_HEIGHT + 40),
                p_w = PLAYER_WIDTH, p_h = PLAYER_HEIGHT, p_vx = 0 \<rparr>,
     bullets = map (\<lambda>i. \<lparr> b_x = 0, b_y = 0, b_w = BULLET_WIDTH, b_h = BULLET_HEIGHT,
                          b_active = False \<rparr>) [0..<MAX_BULLETS],
     aliens = map (\<lambda>i. \<lparr> a_x = ALIEN_START_X + int i * ALIEN_SPACING, a_y = ALIEN_START_Y,
                         a_w = ALIEN_WIDTH, a_h = ALIEN_HEIGHT, a_active = True \<rparr>)
                  [0..<ALIEN_COUNT] \<rparr>"

definition reset_player :: "Player \<Rightarrow> Player" where
  "reset_player p =
     (let p1 = p\<lparr> p_w := PLAYER_WIDTH \<rparr>;
          p2 = p1\<lparr> p_h := PLAYER_HEIGHT \<rparr>;
          p3 = p2\<lparr> p_x := (WINDOW_WIDTH - p_w p2) sdiv 2 \<rparr>;
          p4 = p3\<lparr> p_y := WINDOW_HEIGHT - (p_h p3 + 40) \<rparr>
      in p4\<lparr> p_vx := 0 \<rparr>)"

definition reset_bullet :: "nat \<Rightarrow> Bullet \<Rightarrow> Bullet" where
  "reset_bullet i b =
     b\<lparr> b_active := False, b_x := 0, b_y := 0, b_w := BULLET_WIDTH, b_h := BULLET_HEIGHT \<rparr>"

definition reset_alien :: "nat \<Rightarrow> Alien \<Rightarrow> Alien" where
  "reset_alien i a =
     a\<lparr> a_active := True, a_w := ALIEN_WIDTH, a_h := ALIEN_HEIGHT,
        a_x := ALIEN_START_X + int i * ALIEN_SPACING, a_y := ALIEN_START_Y \<rparr>"

definition resetGame :: "nat \<Rightarrow> game \<Rightarrow> game" where
  "resetGame alienCount s =
     s\<lparr> gLives := PLAYER_LIVES, gScore := 0, gGameOver := False, gAlienMoveDir := 1,
        player := reset_player (player s),
        bullets := for_each MAX_BULLETS reset_bullet (bullets s),
        aliens := for_each alienCount reset_alien (aliens s) \<rparr>"

subsection \<open>Events\<close>

datatype key = SDLK_ESCAPE | SDLK_LEFT | SDLK_RIGHT | SDLK_SPACE | SDLK_r | SDLK_other

datatype event = SDL_QUIT | SDL_KEYDOWN key | SDL_KEYUP key | SDL_other

text \<open>\<^verbatim>\<open>case SDLK_SPACE\<close>: the first free slot, if any, becomes a bullet above the player.\<close>

definition fire_bullet :: "game \<Rightarrow> game" where
  "fire_bullet s =
     (if \<not> gGameOver s then
        (case first_index MAX_BULLETS (\<lambda>i. \<not> b_active (bullets s ! i)) of
           None \<Rightarrow> s
         | Some i \<Rightarrow>
             s\<lparr> bullets := (bullets s)[i := (bullets s ! i)
                  \<lparr> b_active := True,
                    b_x := p_x (player s) + (p_w (player s) sdiv 2) - (b_w (bullets s ! i) sdiv 2),
                    b_y := p_y (player s) - b_h (bullets s ! i) \<rparr>] \<rparr>)
      else s)"

definition restart :: "game \<Rightarrow> game" where
  "restart s = (if gGameOver s then resetGame ALIEN_COUNT s else s)"

fun handle_event :: "event \<Rightarrow> game \<Rightarrow> game" where
  "handle_event SDL_QUIT s = s"
| "handle_event (SDL_KEYDOWN SDLK_ESCAPE) s = s"
| "handle_event (SDL_KEYDOWN SDLK_LEFT) s = s\<lparr> player := (player s)\<lparr> p_vx := - PLAYER_SPEED \<rparr> \<rparr>"
| "handle_event (SDL_KEYDOWN SDLK_RIGHT) s = s\<lparr> player := (player s)\<lparr> p_vx := PLAYER_SPEED \<rparr> \<rparr>"
| "handle_event (SDL_KEYDOWN SDLK_SPACE) s = fire_bullet s"
| "handle_event (SDL_KEYDOWN SDLK_r) s = restart s"
| "handle_event (SDL_KEYDOWN SDLK_other) s = s"
| "handle_event (SDL_KEYUP SDLK_LEFT) s =
     (if p_vx (player s) < 0 then s\<lparr> player := (player s)\<lparr> p_vx := 0 \<rparr> \<rparr> else s)"
| "handle_event (SDL_KEYUP SDLK_RIGHT) s =
     (if p_vx (player s) > 0 then s\<lparr> player := (player s)\<lparr> p_vx := 0 \<rparr> \<rparr> else s)"
| "handle_event (SDL_KEYUP k) s = s"
| "handle_event SDL_other s = s"

subsection \<open>Update logic of one frame\<close>

definition move_player :: "Player \<Rightarrow> Player" where
  "move_player p =
     (let p1 = p\<lparr> p_x := p_x p + p_vx p \<rparr>;
          p2 = (if p_x p1 < 0 then p1\<lparr> p_x := 0 \<rparr> else p1)
      in if p_x p2 + p_w p2 > WINDOW_WIDTH then p2\<lparr> p_x := WINDOW_WIDTH - p_w p2 \<rparr> else p2)"

definition update_bullet :: "nat \<Rightarrow> Bullet \<Rightarrow> Bullet" where
  "update_bullet i b =
     (if b_active b then
        (let b1 = b\<lparr> b_y := b_y b - BULLET_SPEED \<rparr>
         in if b_y b1 + b_h b1 < 0 then b1\<lparr> b_active := False \<rparr> else b1)
      else b)"

text \<open>The flag \<^verbatim>\<open>needDescend\<close>: some active alien would leave the window.\<close>

definition out_of_bounds :: "int \<Rightarrow> Alien \<Rightarrow> bool" where
  "out_of_bounds dir a =
     (let newX = a_x a + ALIEN_SPEED * dir in newX < 0 \<or> newX + a_w a > WINDOW_WIDTH)"

definition needDescend :: "game \<Rightarrow> bool" where
  "needDescend s \<longleftrightarrow>
     first_index ALIEN_COUNT
       (\<lambda>i. a_active (aliens s ! i) \<and> out_of_bounds (gAlienMoveDir s) (aliens s ! i)) \<noteq> None"

definition descend_alien :: "nat \<Rightarrow> Alien \<Rightarrow> Alien" where
  "descend_alien i a = (if a_active a then a\<lparr> a_y := a_y a + ALIEN_DESCENT \<rparr> else a)"

definition shift_alien :: "int \<Rightarrow> nat \<Rightarrow> Alien \<Rightarrow> Alien" where
  "shift_alien dir i a = (if a_active a then a\<lparr> a_x := a_x a + ALIEN_SPEED * dir \<rparr> else a)"

definition move_aliens :: "game \<Rightarrow> game" where
  "move_aliens s =
     (if needDescend s then
        s\<lparr> gAlienMoveDir := - gAlienMoveDir s,
           aliens := for_each ALIEN_COUNT descend_alien (aliens s) \<rparr>
      else
        s\<lparr> aliens := for_each ALIEN_COUNT (shift_alien (gAlienMoveDir s)) (aliens s) \<rparr>)"

text \<open>Collision of bullet \<open>b\<close> with the aliens: the inner loop stops at the first hit.\<close>

definition hits :: "Bullet \<Rightarrow> Alien \<Rightarrow> bool" where
  "hits b a \<longleftrightarrow>
     a_active a \<and> rect_collide (b_x b) (b_y b) (b_w b) (b_h b) (a_x a) (a_y a) (a_w a) (a_h a)"

definition collide_bullet :: "nat \<Rightarrow> game \<Rightarrow> game" where
  "collide_bullet b s =
     (if \<not> b_active (bullets s ! b) then s
      else
        (case first_index ALIEN_COUNT (\<lambda>i. hits (bullets s ! b) (aliens s ! i)) of
           None \<Rightarrow> s
         | Some i \<Rightarrow>
             s\<lparr> aliens := (aliens s)[i := (aliens s ! i)\<lparr> a_active := False \<rparr>],
                bullets := (bullets s)[b := (bullets s ! b)\<lparr> b_active := False \<rparr>],
                gScore := gScore s + 10 \<rparr>))"

definition collide :: "game \<Rightarrow> game" where
  "collide s = for_upto MAX_BULLETS collide_bullet s"

text \<open>The aliens reached the player's row: a life is lost, and the wave starts again
  unless it was the last life.\<close>

definition reached :: "game \<Rightarrow> nat \<Rightarrow> bool" where
  "reached s i \<longleftrightarrow>
     a_active (aliens s ! i) \<and> a_y (aliens s ! i) + a_h (aliens s ! i) \<ge> p_y (player s)"

definition wave_alien :: "nat \<Rightarrow> Alien \<Rightarrow> Alien" where
  "wave_alien a al =
     al\<lparr> a_active := True, a_x := ALIEN_START_X + int a * ALIEN_SPACING, a_y := ALIEN_START_Y \<rparr>"

definition wave_bullet :: "nat \<Rightarrow> Bullet \<Rightarrow> Bullet" where
  "wave_bullet b bl = bl\<lparr> b_active := False \<rparr>"

definition lose_life :: "game \<Rightarrow> game" where
  "lose_life s =
     (let s1 = s\<lparr> gLives := gLives s - 1 \<rparr>
      in if gLives s1 \<le> 0 then s1\<lparr> gGameOver := True \<rparr>
         else s1\<lparr> aliens := for_each ALIEN_COUNT wave_alien (aliens s1),
                  bullets := for_each MAX_BULLETS wave_bullet (bullets s1) \<rparr>)"

definition check_reached :: "game \<Rightarrow> game" where
  "check_reached s =
     (case first_index ALIEN_COUNT (reached s) of None \<Rightarrow> s | Some i \<Rightarrow> lose_life s)"

text \<open>The block \<^verbatim>\<open>if (!gGameOver) { ... }\<close> of the main loop, split at its comments.\<close>

definition move_ship_and_bullets :: "game \<Rightarrow> game" where
  "move_ship_and_bullets s =
     s\<lparr> player := move_player (player s),
        bullets := for_each MAX_BULLETS update_bullet (bullets s) \<rparr>"

definition update :: "game \<Rightarrow> game" where
  "update s =
     (if \<not> gGameOver s
      then check_reached (collide (move_aliens (move_ship_and_bullets s)))
      else s)"

text \<open>The victory check that follows it in every iteration.\<close>

definition allAliensDead :: "game \<Rightarrow> bool" where
  "allAliensDead s \<longleftrightarrow> first_index ALIEN_COUNT (\<lambda>i. a_active (aliens s ! i)) = None"

definition check_victory :: "game \<Rightarrow> game" where
  "check_victory s = (if allAliensDead s \<and> \<not> gGameOver s then s\<lparr> gGameOver := True \<rparr> else s)"

definition frame :: "game \<Rightarrow> game" where
  "frame s = check_victory (update s)"

text \<open>The message chosen when the game is over.\<close>

definition victory :: "game \<Rightarrow> bool" where
  "victory s \<longleftrightarrow> gGameOver s \<and> allAliensDead s \<and> gLives s > 0"

definition defeat :: "game \<Rightarrow> bool" where
  "defeat s \<longleftrightarrow> gGameOver s \<and> \<not> (allAliensDead s \<and> gLives s > 0)"

text \<open>The states of a run: the main loop polls events and then updates one frame.\<close>

inductive reachable :: "game \<Rightarrow> bool" where
  reach_init: "reachable init"
| reach_event: "reachable s \<Longrightarrow> reachable (handle_event e s)"
| reach_frame: "reachable s \<Longrightarrow> reachable (frame s)"

subsection \<open>Notions used in the statements\<close>

text \<open>The state of a frame just before the row check: ship, bullets and aliens have moved
  and the collisions are resolved.\<close>

definition after_collisions :: "game \<Rightarrow> game" where
  "after_collisions s = collide (move_aliens (move_ship_and_bullets s))"

text \<open>The frame ends with a wave reset: an active alien has reached the player's row
  and a life remains.\<close>

definition wave_restarts :: "game \<Rightarrow> bool" where
  "wave_restarts s \<longleftrightarrow>
     \<not> gGameOver s \<and> first_index ALIEN_COUNT (reached (after_collisions s)) \<noteq> None
     \<and> \<not> gLives s - 1 \<le> 0"

text \<open>What the collision loops can do to an alien: nothing but switch it off.\<close>

definition only_off :: "Alien list \<Rightarrow> Alien list \<Rightarrow> bool" where
  "only_off as bs \<longleftrightarrow> length bs = length as
     \<and> (\<forall>i<length as. bs ! i = as ! i \<or> bs ! i = (as ! i)\<lparr> a_active := False \<rparr>)"

text \<open>Two states of an undisturbed game: the full row at the right edge of the window
  before its first descent, and at the right edge on the lowest row above the player.\<close>

definition right_edge_state :: game where
  "right_edge_state = init\<lparr> aliens := map (\<lambda>i. \<lparr> a_x = 258 + int i * 50, a_y = 50,
       a_w = 32, a_h = 32, a_active = True \<rparr>) [0..<ALIEN_COUNT] \<rparr>"

definition last_row_state :: game where
  "last_row_state = init\<lparr> aliens := map (\<lambda>i. \<lparr> a_x = 258 + int i * 50, a_y = 370,
       a_w = 32, a_h = 32, a_active = True \<rparr>) [0..<ALIEN_COUNT] \<rparr>"

text \<open>The active aliens stand on one row.\<close>

definition row_aligned :: "Alien list \<Rightarrow> bool" where
  "row_aligned as \<longleftrightarrow>
     (\<forall>i<ALIEN_COUNT. \<forall>j<ALIEN_COUNT.
        a_active (as ! i) \<and> a_active (as ! j) \<longrightarrow> a_y (as ! i) = a_y (as ! j))"

subsection \<open>Runs of the main loop\<close>

text \<open>A run is a sequence of polled events and frame updates, applied from the left.\<close>

datatype step = Input event | Tick

fun run :: "step list \<Rightarrow> game \<Rightarrow> game" where
  "run [] s = s"
| "run (Input e # xs) s = run xs (handle_event e s)"
| "run (Tick # xs) s = run xs (frame s)"

text \<open>What the state of a run satisfies about lives and the end of the game.\<close>

definition lives_ok :: "game \<Rightarrow> bool" where
  "lives_ok s \<longleftrightarrow>
     0 \<le> gLives s \<and> gLives s \<le> PLAYER_LIVES
     \<and> (\<not> gGameOver s \<longrightarrow> 0 < gLives s)
     \<and> (gGameOver s \<and> 0 < gLives s \<longrightarrow> allAliensDead s)"

text \<open>The number of aliens that the collision loops of a frame destroy, and their total
  along a run, counted from the last start of a game.\<close>

definition active_count :: "Alien list \<Rightarrow> nat" where
  "active_count as = length (filter a_active as)"

definition destroyed_in_frame :: "game \<Rightarrow> nat" where
  "destroyed_in_frame s =
     (if gGameOver s then 0
      else active_count (aliens s) - active_count (aliens (after_collisions s)))"

fun destroyed :: "step list \<Rightarrow> game \<Rightarrow> nat \<Rightarrow> nat" where
  "destroyed [] s n = n"
| "destroyed (Input e # xs) s n =
     destroyed xs (handle_event e s) (if e = SDL_KEYDOWN SDLK_r \<and> gGameOver s then 0 else n)"
| "destroyed (Tick # xs) s n = destroyed xs (frame s) (n + destroyed_in_frame s)"

text \<open>A game played to victory: the ship sweeps left, then right, and fires eight times.\<close>

definition winning_play :: "step list" where
  "winning_play =
     [Input (SDL_KEYDOWN SDLK_LEFT)] @
     [Input (SDL_KEYDOWN SDLK_SPACE)] @
     replicate 6 Tick @
     [Input (SDL_KEYDOWN SDLK_SPACE)] @
     replicate 9 Tick @
     [Input (SDL_KEYDOWN SDLK_SPACE)] @
     replicate 8 Tick @
     [Input (SDL_KEYDOWN SDLK_SPACE)] @
     replicate 8 Tick @
     [Input (SDL_KEYDOWN SDLK_SPACE)] @
     replicate 10 Tick @
     [Input (SDL_KEYDOWN SDLK_RIGHT)] @
     replicate 68 Tick @
     [Input (SDL_KEYDOWN SDLK_SPACE)] @
     replicate 13 Tick @
     [Input (SDL_KEYDOWN SDLK_SPACE)] @
     replicate 12 Tick @
     [Input (SDL_KEYDOWN SDLK_SPACE)] @
     replicate 46 Tick"

text \<open>The state in which that game ends.\<close>

definition won_state :: game where
  "won_state = \<lparr> gGameOver = True, gLives = 3, gScore = 80, gAlienMoveDir = 1,
     player = \<lparr> p_x = 608, p_y = 408, p_w = 32, p_h = 32, p_vx = 5 \<rparr>,
     bullets =
       [\<lparr> b_x = 453, b_y = 76, b_w = 4, b_h = 10, b_active = False \<rparr>,
        \<lparr> b_x = 518, b_y = 76, b_w = 4, b_h = 10, b_active = False \<rparr>,
        \<lparr> b_x = 578, b_y = 76, b_w = 4, b_h = 10, b_active = False \<rparr>,
        \<lparr> b_x = 203, b_y = 55, b_w = 4, b_h = 10, b_active = False \<rparr>,
        \<lparr> b_x = 163, b_y = 41, b_w = 4, b_h = 10, b_active = False \<rparr>],
     aliens =
       [\<lparr> a_x = 132, a_y = 50, a_w = 32, a_h = 32, a_active = False \<rparr>,
        \<lparr> a_x = 172, a_y = 50, a_w = 32, a_h = 32, a_active = False \<rparr>,
        \<lparr> a_x = 212, a_y = 50, a_w = 32, a_h = 32, a_active = False \<rparr>,
        \<lparr> a_x = 257, a_y = 50, a_w = 32, a_h = 32, a_active = False \<rparr>,
        \<lparr> a_x = 296, a_y = 50, a_w = 32, a_h = 32, a_active = False \<rparr>,
        \<lparr> a_x = 455, a_y = 50, a_w = 32, a_h = 32, a_active = False \<rparr>,
        \<lparr> a_x = 518, a_y = 50, a_w = 32, a_h = 32, a_active = False \<rparr>,
        \<lparr> a_x = 580, a_y = 50, a_w = 32, a_h = 32, a_active = False \<rparr>] \<rparr>"

text \<open>A state in which bullet 0 overlaps aliens 0 and 1 at once.\<close>

definition tie_state :: game where
  "tie_state = init\<lparr>
     bullets := (bullets init)[0 := \<lparr> b_x = 60, b_y = 60, b_w = 4, b_h = 10, b_active = True \<rparr>],
     aliens := (aliens init)[1 := \<lparr> a_x = 55, a_y = 50, a_w = 32, a_h = 32, a_active = True \<rparr>] \<rparr>"

subsection \<open>The game without input\<close>

text \<open>The state of a game in which nothing was fired and the ship did not move: the full
  row with alien 0 at \<open>(x, y)\<close>, moving in direction \<open>d\<close>, with \<open>l\<close> lives. The row
  turns at x = 258 on the right and at x = 0 on the left.\<close>

definition marching :: "int \<Rightarrow> int \<Rightarrow> int \<Rightarrow> int \<Rightarrow> game" where
  "marching x y d l = init\<lparr> gLives := l, gAlienMoveDir := d,
     aliens := map (\<lambda>i. \<lparr> a_x = x + int i * 50, a_y = y, a_w = 32, a_h = 32,
                          a_active = True \<rparr>) [0..<ALIEN_COUNT] \<rparr>"

definition edge :: "int \<Rightarrow> int" where
  "edge d = (if d = 1 then 258 else 0)"

text \<open>The state in which a game without input ends: the third wave has reached the row
  of the player.\<close>

definition lost_state :: game where
  "lost_state = init\<lparr> gGameOver := True, gLives := 0, gAlienMoveDir := - 1,
     aliens := map (\<lambda>i. \<lparr> a_x = 258 + int i * 50, a_y = 390, a_w = 32, a_h = 32,
                          a_active = True \<rparr>) [0..<ALIEN_COUNT] \<rparr>"

subsection \<open>Ranges of the values\<close>

text \<open>Bounds that the fields keep along a run; \<open>above_player\<close> says that no active alien
  has reached the row of the player.\<close>

definition player_ok :: "Player \<Rightarrow> bool" where
  "player_ok p \<longleftrightarrow>
     p_w p = 32 \<and> p_h p = 32 \<and> p_y p = 408 \<and> 0 \<le> p_x p \<and> p_x p \<le> 608
     \<and> (p_vx p = - 5 \<or> p_vx p = 0 \<or> p_vx p = 5)"

definition bullet_ok :: "Bullet \<Rightarrow> bool" where
  "bullet_ok b \<longleftrightarrow>
     b_w b = 4 \<and> b_h b = 10 \<and> 0 \<le> b_x b \<and> b_x b \<le> 622
     \<and> - 17 \<le> b_y b \<and> b_y b \<le> 398 \<and> (b_active b \<longrightarrow> - 10 \<le> b_y b)"

definition alien_ok :: "Alien \<Rightarrow> bool" where
  "alien_ok a \<longleftrightarrow>
     a_w a = 32 \<and> a_h a = 32 \<and> 0 \<le> a_x a \<and> a_x a \<le> 608 \<and> 50 \<le> a_y a \<and> a_y a \<le> 395"

definition fields_ok :: "game \<Rightarrow> bool" where
  "fields_ok s \<longleftrightarrow>
     arrays_ok s
     \<and> 0 \<le> gLives s \<and> gLives s \<le> 3 \<and> (\<not> gGameOver s \<longrightarrow> 0 < gLives s)
     \<and> (gAlienMoveDir s = 1 \<or> gAlienMoveDir s = - 1)
     \<and> 0 \<le> gScore s
     \<and> gScore s + 10 * int (active_count (aliens s)) \<le> 80 * (4 - gLives s)
     \<and> player_ok (player s)
     \<and> (\<forall>i<MAX_BULLETS. bullet_ok (bullets s ! i))
     \<and> (\<forall>i<ALIEN_COUNT. alien_ok (aliens s ! i))"

definition above_player :: "game \<Rightarrow> bool" where
  "above_player s \<longleftrightarrow>
     (\<forall>i<ALIEN_COUNT. a_active (aliens s ! i) \<longrightarrow> a_y (aliens s ! i) < 376)"

definition ranges_ok :: "game \<Rightarrow> bool" where
  "ranges_ok s \<longleftrightarrow> fields_ok s \<and> (\<not> gGameOver s \<longrightarrow> above_player s)"

section \<open>Facts about the loops\<close>

lemma length_for_each [simp]: "length (for_each n f xs) = length xs"
  unfolding for_each_def by (induction n) simp_all

lemma nth_for_each:
  "i < length xs \<Longrightarrow> for_each n f xs ! i = (if i < n then f i (xs ! i) else xs ! i)"
proof (induction n)
  case 0
  then show ?case by (simp add: for_each_def)
next
  case (Suc n)
  have len: "length (for_upto n (\<lambda>i ys. ys[i := f i (ys ! i)]) xs) = length xs"
    using length_for_each [of n f xs] by (simp add: for_each_def)
  from Suc show ?case
    by (auto simp: for_each_def len nth_list_update less_Suc_eq)
qed

lemma for_each_whole:
  assumes "length xs = n" and "\<And>i. i < n \<Longrightarrow> f i (xs ! i) = g i"
  shows "for_each n f xs = map g [0..<n]"
proof (rule nth_equalityI)
  show "length (for_each n f xs) = length (map g [0..<n])"
    using assms(1) by simp
next
  fix i assume "i < length (for_each n f xs)"
  then have "i < n" using assms(1) by simp
  then show "for_each n f xs ! i = map g [0..<n] ! i"
    using assms by (simp add: nth_for_each)
qed

lemma first_index_None: "first_index n P = None \<longleftrightarrow> (\<forall>i<n. \<not> P i)"
  by (auto simp: first_index_def find_None_iff)

lemma first_index_Some:
  "first_index n P = Some i \<longleftrightarrow> i < n \<and> P i \<and> (\<forall>j<i. \<not> P j)"
  by (auto simp: first_index_def find_Some_iff)

section \<open>The collision predicate\<close>

lemma wrap32_id: "int32 k \<Longrightarrow> wrap32 k = k"
  by (simp add: int32_def wrap32_def)

lemma int32_wrap32: "int32 (wrap32 k)"
  by (simp add: int32_def wrap32_def)

lemma rect_collide_int32_exact:
  assumes "int32 (x1 + w1)" and "int32 (y1 + h1)" and "int32 (x2 + w2)" and "int32 (y2 + h2)"
  shows "rect_collide_int32 x1 y1 w1 h1 x2 y2 w2 h2 = rect_collide x1 y1 w1 h1 x2 y2 w2 h2"
  using assms by (simp add: rect_collide_int32_def rect_collide_def wrap32_id)

text \<open>
  Claim C7, as stated, for all rectangles: the function returns true exactly when the four
  inequalities hold, that is, when the rectangles intersect with nonzero area. This
  fails where a sum leaves the range of \<^verbatim>\<open>int\<close>. For A = (2147483647, 0, 1, 10) and
  B = (2147483640, 0, 10, 10) all arguments are values of type \<^verbatim>\<open>int\<close>, the four
  inequalities hold of the numbers and the rectangles share the pixel (2147483647, 0),
  but the 32-bit sum B.x + B.w is negative and the function returns false.
\<close>

theorem rect_collide_counterexample:
  "int32 2147483647 \<and> int32 0 \<and> int32 1 \<and> int32 10 \<and> int32 2147483640
   \<and> (2147483647 :: int) < 2147483640 + 10 \<and> (2147483647 :: int) + 1 > 2147483640
   \<and> (0 :: int) < 0 + 10 \<and> (0 :: int) + 10 > 0
   \<and> \<not> rect_collide_int32 2147483647 0 1 10 2147483640 0 10 10"
  by (simp add: int32_def rect_collide_int32_def wrap32_def)

text \<open>
  Claim C7, amended. For all rectangles whose four sums x + w and y + h fit into an
  \<^verbatim>\<open>int\<close>, \<open>rect_collide\<close> returns true exactly when the four strict inequalities hold
  (A.x < B.x + B.w, A.x + A.w > B.x, A.y < B.y + B.h, A.y + A.h > B.y), and it agrees with
  the test on the mathematical integers. Rectangles that only touch, so that one of the
  four comparisons is an equality, do not collide. For rectangles of positive width and
  height the test says that the two rectangles share a pixel, that is, they intersect
  with nonzero area. The result depends on the eight arguments only.
\<close>

theorem rect_collide_spec:
  assumes "int32 (x1 + w1)" and "int32 (y1 + h1)" and "int32 (x2 + w2)" and "int32 (y2 + h2)"
  shows "(rect_collide_int32 x1 y1 w1 h1 x2 y2 w2 h2 \<longleftrightarrow>
      x1 < x2 + w2 \<and> x1 + w1 > x2 \<and> y1 < y2 + h2 \<and> y1 + h1 > y2)
   \<and> (rect_collide_int32 x1 y1 w1 h1 x2 y2 w2 h2 \<longleftrightarrow> rect_collide x1 y1 w1 h1 x2 y2 w2 h2)
   \<and> (x1 = x2 + w2 \<or> x1 + w1 = x2 \<or> y1 = y2 + h2 \<or> y1 + h1 = y2
        \<longrightarrow> \<not> rect_collide_int32 x1 y1 w1 h1 x2 y2 w2 h2)
   \<and> (0 < w1 \<and> 0 < h1 \<and> 0 < w2 \<and> 0 < h2 \<longrightarrow>
        (rect_collide_int32 x1 y1 w1 h1 x2 y2 w2 h2 \<longleftrightarrow>
           (\<exists>px py. x1 \<le> px \<and> px < x1 + w1 \<and> x2 \<le> px \<and> px < x2 + w2
                  \<and> y1 \<le> py \<and> py < y1 + h1 \<and> y2 \<le> py \<and> py < y2 + h2)))"
proof -
  have m: "rect_collide_int32 x1 y1 w1 h1 x2 y2 w2 h2 \<longleftrightarrow>
      x1 < x2 + w2 \<and> x1 + w1 > x2 \<and> y1 < y2 + h2 \<and> y1 + h1 > y2"
    using assms by (simp add: rect_collide_int32_def wrap32_id)
  have c2: "rect_collide_int32 x1 y1 w1 h1 x2 y2 w2 h2 \<longleftrightarrow> rect_collide x1 y1 w1 h1 x2 y2 w2 h2"
    using assms by (rule rect_collide_int32_exact)
  have c3: "x1 = x2 + w2 \<or> x1 + w1 = x2 \<or> y1 = y2 + h2 \<or> y1 + h1 = y2
        \<longrightarrow> \<not> rect_collide_int32 x1 y1 w1 h1 x2 y2 w2 h2"
    unfolding m by auto
  have c4: "0 < w1 \<and> 0 < h1 \<and> 0 < w2 \<and> 0 < h2 \<longrightarrow>
        (rect_collide_int32 x1 y1 w1 h1 x2 y2 w2 h2 \<longleftrightarrow>
           (\<exists>px py. x1 \<le> px \<and> px < x1 + w1 \<and> x2 \<le> px \<and> px < x2 + w2
                  \<and> y1 \<le> py \<and> py < y1 + h1 \<and> y2 \<le> py \<and> py < y2 + h2))"
  proof
    assume pos: "0 < w1 \<and> 0 < h1 \<and> 0 < w2 \<and> 0 < h2"
    show "rect_collide_int32 x1 y1 w1 h1 x2 y2 w2 h2 \<longleftrightarrow>
           (\<exists>px py. x1 \<le> px \<and> px < x1 + w1 \<and> x2 \<le> px \<and> px < x2 + w2
                  \<and> y1 \<le> py \<and> py < y1 + h1 \<and> y2 \<le> py \<and> py < y2 + h2)"
    proof
      assume "rect_collide_int32 x1 y1 w1 h1 x2 y2 w2 h2"
      then have c: "x1 < x2 + w2 \<and> x1 + w1 > x2 \<and> y1 < y2 + h2 \<and> y1 + h1 > y2"
        by (simp add: m)
      let ?px = "max x1 x2" and ?py = "max y1 y2"
      from c pos have "x1 \<le> ?px \<and> ?px < x1 + w1 \<and> x2 \<le> ?px \<and> ?px < x2 + w2
                  \<and> y1 \<le> ?py \<and> ?py < y1 + h1 \<and> y2 \<le> ?py \<and> ?py < y2 + h2"
        by (simp add: max_def)
      then show "\<exists>px py. x1 \<le> px \<and> px < x1 + w1 \<and> x2 \<le> px \<and> px < x2 + w2
                  \<and> y1 \<le> py \<and> py < y1 + h1 \<and> y2 \<le> py \<and> py < y2 + h2"
        by blast
    next
      assume "\<exists>px py. x1 \<le> px \<and> px < x1 + w1 \<and> x2 \<le> px \<and> px < x2 + w2
                  \<and> y1 \<le> py \<and> py < y1 + h1 \<and> y2 \<le> py \<and> py < y2 + h2"
      then show "rect_collide_int32 x1 y1 w1 h1 x2 y2 w2 h2"
        unfolding m by auto
    qed
  qed
  show ?thesis
    by (rule conjI [OF m conjI [OF c2 conjI [OF c3 c4]]])
qed

text \<open>Two squares of side 10 that touch along an edge or at a corner do not collide;
  moved to overlap in one pixel, they do; a bullet at (318, 76) hits an alien at
  (296, 50).\<close>

theorem rect_collide_spec_witness:
  "\<not> rect_collide_int32 0 0 10 10 10 0 10 10 \<and> \<not> rect_collide_int32 0 0 10 10 10 10 10 10
   \<and> rect_collide_int32 0 0 10 10 9 9 10 10
   \<and> rect_collide 318 76 4 10 296 50 32 32"
proof -
  have r: "int32 (0 + 10)" "int32 (10 + 10)" "int32 (9 + 10)"
    "int32 (318 + 4)" "int32 (76 + 10)" "int32 (296 + 32)" "int32 (50 + 32)"
    by (simp_all add: int32_def)
  have "\<not> rect_collide_int32 0 0 10 10 10 0 10 10"
    using rect_collide_spec [OF r(1) r(1) r(2) r(1)] by simp
  moreover have "\<not> rect_collide_int32 0 0 10 10 10 10 10 10"
    using rect_collide_spec [OF r(1) r(1) r(2) r(2)] by simp
  moreover have "rect_collide_int32 0 0 10 10 9 9 10 10"
    using rect_collide_spec [OF r(1) r(1) r(3) r(3)] by simp
  moreover have "rect_collide 318 76 4 10 296 50 32 32"
  proof -
    from rect_collide_spec [OF r(4) r(5) r(6) r(7)]
    have a: "rect_collide_int32 318 76 4 10 296 50 32 32 \<longleftrightarrow>
        (318 :: int) < 296 + 32 \<and> (318 :: int) + 4 > 296 \<and> (76 :: int) < 50 + 32
        \<and> (76 :: int) + 10 > 50"
      and b: "rect_collide_int32 318 76 4 10 296 50 32 32 \<longleftrightarrow>
        rect_collide 318 76 4 10 296 50 32 32"
      by blast+
    from a have "rect_collide_int32 318 76 4 10 296 50 32 32" by simp
    with b show ?thesis by simp
  qed
  ultimately show ?thesis by simp
qed

section \<open>Keyboard input\<close>

text \<open>
  Claim C9. Releasing the left key sets the velocity of the player to 0 when the velocity
  is negative and changes nothing of the state otherwise; releasing the right key sets
  it to 0 when it is positive and changes nothing otherwise. Pressing left sets the
  velocity to -5 and pressing right to 5, whatever it was.
\<close>

theorem key_velocity:
  "(p_vx (player s) < 0 \<longrightarrow>
      handle_event (SDL_KEYUP SDLK_LEFT) s = s\<lparr> player := (player s)\<lparr> p_vx := 0 \<rparr> \<rparr>)
   \<and> (\<not> p_vx (player s) < 0 \<longrightarrow> handle_event (SDL_KEYUP SDLK_LEFT) s = s)
   \<and> (p_vx (player s) > 0 \<longrightarrow>
      handle_event (SDL_KEYUP SDLK_RIGHT) s = s\<lparr> player := (player s)\<lparr> p_vx := 0 \<rparr> \<rparr>)
   \<and> (\<not> p_vx (player s) > 0 \<longrightarrow> handle_event (SDL_KEYUP SDLK_RIGHT) s = s)
   \<and> p_vx (player (handle_event (SDL_KEYDOWN SDLK_LEFT) s)) = - 5
   \<and> p_vx (player (handle_event (SDL_KEYDOWN SDLK_RIGHT) s)) = 5"
  by (simp add: PLAYER_SPEED_def)

text \<open>With the ship moving right, releasing left changes nothing and releasing right
  stops it; with the ship moving left it is the other way round.\<close>

theorem key_velocity_witness:
  "handle_event (SDL_KEYUP SDLK_LEFT) (init\<lparr> player := (player init)\<lparr> p_vx := 5 \<rparr> \<rparr>)
     = init\<lparr> player := (player init)\<lparr> p_vx := 5 \<rparr> \<rparr>
   \<and> p_vx (player (handle_event (SDL_KEYUP SDLK_RIGHT)
        (init\<lparr> player := (player init)\<lparr> p_vx := 5 \<rparr> \<rparr>))) = 0
   \<and> handle_event (SDL_KEYUP SDLK_RIGHT) (init\<lparr> player := (player init)\<lparr> p_vx := - 5 \<rparr> \<rparr>)
     = init\<lparr> player := (player init)\<lparr> p_vx := - 5 \<rparr> \<rparr>
   \<and> p_vx (player (handle_event (SDL_KEYUP SDLK_LEFT)
        (init\<lparr> player := (player init)\<lparr> p_vx := - 5 \<rparr> \<rparr>))) = 0"
  using key_velocity [of "init\<lparr> player := (player init)\<lparr> p_vx := 5 \<rparr> \<rparr>"]
        key_velocity [of "init\<lparr> player := (player init)\<lparr> p_vx := - 5 \<rparr> \<rparr>"]
  by simp

section \<open>The arrays keep their sizes\<close>

lemma arrays_ok_init: "arrays_ok init"
  by (simp add: arrays_ok_def init_def)

lemma resetGame_init:
  assumes "arrays_ok s"
  shows "resetGame ALIEN_COUNT s = init"
proof -
  have b: "for_each MAX_BULLETS reset_bullet (bullets s) = bullets init"
    unfolding init_def using assms
    by (simp add: for_each_whole arrays_ok_def reset_bullet_def)
  have a: "for_each ALIEN_COUNT reset_alien (aliens s) = aliens init"
    unfolding init_def using assms
    by (simp add: for_each_whole arrays_ok_def reset_alien_def)
  have p: "reset_player (player s) = player init"
    by (simp add: reset_player_def init_def Let_def)
  show ?thesis
    unfolding resetGame_def a b p by (simp add: init_def)
qed

lemma lengths_fire_bullet [simp]:
  "length (bullets (fire_bullet s)) = length (bullets s)"
  "length (aliens (fire_bullet s)) = length (aliens s)"
  by (simp_all add: fire_bullet_def split: option.split)

lemma lengths_resetGame [simp]:
  "length (bullets (resetGame n s)) = length (bullets s)"
  "length (aliens (resetGame n s)) = length (aliens s)"
  by (simp_all add: resetGame_def)

lemma lengths_handle_event [simp]:
  "length (bullets (handle_event e s)) = length (bullets s)"
  "length (aliens (handle_event e s)) = length (aliens s)"
  by (induction e s rule: handle_event.induct) (simp_all add: restart_def)

lemma lengths_move_aliens [simp]:
  "length (bullets (move_aliens s)) = length (bullets s)"
  "length (aliens (move_aliens s)) = length (aliens s)"
  by (simp_all add: move_aliens_def)

lemma lengths_collide_bullet [simp]:
  "length (bullets (collide_bullet b s)) = length (bullets s)"
  "length (aliens (collide_bullet b s)) = length (aliens s)"
  by (simp_all add: collide_bullet_def split: option.split)

lemma lengths_collide_upto:
  "length (bullets (for_upto n collide_bullet s)) = length (bullets s)
   \<and> length (aliens (for_upto n collide_bullet s)) = length (aliens s)"
  by (induction n) simp_all

lemma lengths_collide [simp]:
  "length (bullets (collide s)) = length (bullets s)"
  "length (aliens (collide s)) = length (aliens s)"
  by (simp_all add: collide_def lengths_collide_upto)

lemma lengths_lose_life [simp]:
  "length (bullets (lose_life s)) = length (bullets s)"
  "length (aliens (lose_life s)) = length (aliens s)"
  by (simp_all add: lose_life_def Let_def)

lemma lengths_check_reached [simp]:
  "length (bullets (check_reached s)) = length (bullets s)"
  "length (aliens (check_reached s)) = length (aliens s)"
  by (simp_all add: check_reached_def split: option.split)

lemma lengths_update [simp]:
  "length (bullets (update s)) = length (bullets s)"
  "length (aliens (update s)) = length (aliens s)"
  by (simp_all add: update_def move_ship_and_bullets_def)

lemma lengths_frame [simp]:
  "length (bullets (frame s)) = length (bullets s)"
  "length (aliens (frame s)) = length (aliens s)"
  by (simp_all add: frame_def check_victory_def)

lemma reachable_arrays_ok: "reachable s \<Longrightarrow> arrays_ok s"
  by (induction rule: reachable.induct) (simp_all add: arrays_ok_init, simp_all add: arrays_ok_def)

section \<open>Restart\<close>

text \<open>
  Claim C5. In a state where the game is over, the restart key (R) produces exactly the
  state of the process start: score 0, 3 lives, game-over false, direction +1, the
  player at ((640-32)/2, 480-(32+40)) with size 32x32 and velocity 0, all 5 bullets
  inactive, all 8 aliens active at (50+50i, 50). In a state where the game is not over
  the restart key changes nothing.
\<close>

theorem restart_spec:
  "arrays_ok s \<Longrightarrow>
     (gGameOver s \<longrightarrow> handle_event (SDL_KEYDOWN SDLK_r) s = init)
   \<and> (\<not> gGameOver s \<longrightarrow> handle_event (SDL_KEYDOWN SDLK_r) s = s)
   \<and> gScore init = 0 \<and> gLives init = 3 \<and> \<not> gGameOver init \<and> gAlienMoveDir init = 1
   \<and> player init = \<lparr> p_x = (640 - 32) sdiv 2, p_y = 480 - (32 + 40), p_w = 32, p_h = 32, p_vx = 0 \<rparr>
   \<and> length (bullets init) = 5 \<and> (\<forall>i<5. \<not> b_active (bullets init ! i))
   \<and> length (aliens init) = 8
   \<and> (\<forall>i<8. a_active (aliens init ! i) \<and> a_x (aliens init ! i) = 50 + 50 * int i
             \<and> a_y (aliens init ! i) = 50)"
proof (intro conjI)
  assume ok: "arrays_ok s"
  show "gGameOver s \<longrightarrow> handle_event (SDL_KEYDOWN SDLK_r) s = init"
    using ok by (simp add: restart_def resetGame_init)
  show "\<not> gGameOver s \<longrightarrow> handle_event (SDL_KEYDOWN SDLK_r) s = s"
    by (simp add: restart_def)
  show "player init = \<lparr> p_x = (640 - 32) sdiv 2, p_y = 480 - (32 + 40), p_w = 32, p_h = 32, p_vx = 0 \<rparr>"
    by (simp add: init_def int_consts)
  show "\<forall>i<5. \<not> b_active (bullets init ! i)"
    by (simp add: init_def MAX_BULLETS_def)
  show "\<forall>i<8. a_active (aliens init ! i) \<and> a_x (aliens init ! i) = 50 + 50 * int i
             \<and> a_y (aliens init ! i) = 50"
    by (simp add: init_def ALIEN_COUNT_def int_consts)
qed (simp_all add: init_def int_consts MAX_BULLETS_def ALIEN_COUNT_def)

text \<open>A lost game with score 30 restarts as the initial state; the same key in a
  running game with score 30 leaves it as it is.\<close>

theorem restart_spec_witness:
  "handle_event (SDL_KEYDOWN SDLK_r) (init\<lparr> gGameOver := True, gLives := 0, gScore := 30, gAlienMoveDir := - 1 \<rparr>) = init
   \<and> handle_event (SDL_KEYDOWN SDLK_r) (init\<lparr> gScore := 30 \<rparr>) = init\<lparr> gScore := 30 \<rparr>"
proof -
  have 1: "arrays_ok (init\<lparr> gGameOver := True, gLives := 0, gScore := 30, gAlienMoveDir := - 1 \<rparr>)"
    using arrays_ok_init by (simp add: arrays_ok_def)
  have 2: "arrays_ok (init\<lparr> gScore := 30 \<rparr>)"
    using arrays_ok_init by (simp add: arrays_ok_def)
  have 3: "\<not> gGameOver (init\<lparr> gScore := 30 \<rparr>)"
    by (simp add: init_def)
  show ?thesis
    using restart_spec [OF 1] restart_spec [OF 2] 3 by simp
qed

section \<open>Firing\<close>

lemma count_update_activate:
  "i < length xs \<Longrightarrow> \<not> P (xs ! i) \<Longrightarrow> P x \<Longrightarrow>
   length (filter P (xs[i := x])) = Suc (length (filter P xs))"
proof (induction xs arbitrary: i)
  case Nil
  then show ?case by simp
next
  case (Cons a xs)
  then show ?case by (cases i) simp_all
qed

text \<open>
  Claim C6. Firing (the space key) changes no field of the state when the game is over
  or when all 5 bullet slots are active. Otherwise it activates the inactive slot of
  lowest index, with x = player.x + player.w/2 - bullet.w/2 and the bottom of the bullet
  at the top edge of the player, and changes no other slot, so that one more bullet is
  active. The number of active bullets never exceeds 5, after firing and in every state
  of a run.
\<close>

theorem fire_bullet_spec:
  "(arrays_ok s \<longrightarrow>
     (gGameOver s \<or> (\<forall>i<MAX_BULLETS. b_active (bullets s ! i)) \<longrightarrow> fire_bullet s = s)
   \<and> (\<not> gGameOver s \<and> i < MAX_BULLETS \<and> \<not> b_active (bullets s ! i)
        \<and> (\<forall>j<i. b_active (bullets s ! j)) \<longrightarrow>
        fire_bullet s = s\<lparr> bullets := (bullets s)[i := (bullets s ! i)
            \<lparr> b_active := True,
              b_x := p_x (player s) + (p_w (player s) sdiv 2) - (b_w (bullets s ! i) sdiv 2),
              b_y := p_y (player s) - b_h (bullets s ! i) \<rparr>] \<rparr>
        \<and> b_active (bullets (fire_bullet s) ! i)
        \<and> b_y (bullets (fire_bullet s) ! i) + b_h (bullets (fire_bullet s) ! i) = p_y (player s)
        \<and> (\<forall>k<MAX_BULLETS. k \<noteq> i \<longrightarrow> bullets (fire_bullet s) ! k = bullets s ! k)
        \<and> length (filter b_active (bullets (fire_bullet s)))
            = Suc (length (filter b_active (bullets s))))
   \<and> length (filter b_active (bullets (fire_bullet s))) \<le> 5)
   \<and> (reachable s \<longrightarrow> length (filter b_active (bullets s)) \<le> 5)"
proof (intro conjI impI)
  assume ok: "arrays_ok s"
  assume "gGameOver s \<or> (\<forall>i<MAX_BULLETS. b_active (bullets s ! i))"
  then show "fire_bullet s = s"
    by (auto simp: fire_bullet_def first_index_Some split: option.split)
next
  assume ok: "arrays_ok s"
  assume h: "\<not> gGameOver s \<and> i < MAX_BULLETS \<and> \<not> b_active (bullets s ! i)
        \<and> (\<forall>j<i. b_active (bullets s ! j))"
  then have fi: "first_index MAX_BULLETS (\<lambda>i. \<not> b_active (bullets s ! i)) = Some i"
    by (simp add: first_index_Some)
  from h ok have il: "i < length (bullets s)" by (simp add: arrays_ok_def)
  show eq: "fire_bullet s = s\<lparr> bullets := (bullets s)[i := (bullets s ! i)
            \<lparr> b_active := True,
              b_x := p_x (player s) + (p_w (player s) sdiv 2) - (b_w (bullets s ! i) sdiv 2),
              b_y := p_y (player s) - b_h (bullets s ! i) \<rparr>] \<rparr>"
    using h by (simp add: fire_bullet_def fi)
  show "b_active (bullets (fire_bullet s) ! i)"
    using il by (simp add: eq)
  show "b_y (bullets (fire_bullet s) ! i) + b_h (bullets (fire_bullet s) ! i) = p_y (player s)"
    using il by (simp add: eq)
  show "\<forall>k<MAX_BULLETS. k \<noteq> i \<longrightarrow> bullets (fire_bullet s) ! k = bullets s ! k"
    by (simp add: eq)
  show "length (filter b_active (bullets (fire_bullet s)))
            = Suc (length (filter b_active (bullets s)))"
    using il h by (simp add: eq count_update_activate)
next
  assume ok: "arrays_ok s"
  have "length (filter b_active (bullets (fire_bullet s))) \<le> length (bullets (fire_bullet s))"
    by (rule length_filter_le)
  then show "length (filter b_active (bullets (fire_bullet s))) \<le> 5"
    using ok by (simp add: arrays_ok_def MAX_BULLETS_def)
next
  assume "reachable s"
  then have "arrays_ok s" by (rule reachable_arrays_ok)
  moreover have "length (filter b_active (bullets s)) \<le> length (bullets s)"
    by (rule length_filter_le)
  ultimately show "length (filter b_active (bullets s)) \<le> 5"
    by (simp add: arrays_ok_def MAX_BULLETS_def)
qed

text \<open>In the initial state slot 0 is free and receives the bullet; with the game over
  the key does nothing.\<close>

theorem fire_bullet_spec_witness:
  "fire_bullet (init\<lparr> gGameOver := True \<rparr>) = init\<lparr> gGameOver := True \<rparr>
   \<and> b_active (bullets (fire_bullet init) ! 0)
   \<and> b_y (bullets (fire_bullet init) ! 0) + b_h (bullets (fire_bullet init) ! 0) = p_y (player init)
   \<and> length (filter b_active (bullets (fire_bullet init))) = Suc (length (filter b_active (bullets init)))
   \<and> length (filter b_active (bullets init)) \<le> 5"
proof -
  have ok1: "arrays_ok (init\<lparr> gGameOver := True \<rparr>)"
    using arrays_ok_init by (simp add: arrays_ok_def)
  have over: "gGameOver (init\<lparr> gGameOver := True \<rparr>)"
    by simp
  have free: "\<not> gGameOver init \<and> 0 < MAX_BULLETS \<and> \<not> b_active (bullets init ! 0)
        \<and> (\<forall>j<0. b_active (bullets init ! j))"
    by (simp add: init_def MAX_BULLETS_def)
  show ?thesis
    using fire_bullet_spec [of "init\<lparr> gGameOver := True \<rparr>" 0] ok1 over
          fire_bullet_spec [of init 0] arrays_ok_init free reach_init
    by blast
qed

section \<open>Facts about the frame update\<close>

lemma for_upto_preserves:
  assumes "\<And>i t. P t \<Longrightarrow> P (body i t)" and "P s"
  shows "P (for_upto n body s)"
  using assms by (induction n) simp_all

lemma needDescend_iff:
  "needDescend s \<longleftrightarrow>
     (\<exists>i<ALIEN_COUNT. a_active (aliens s ! i)
        \<and> (a_x (aliens s ! i) + ALIEN_SPEED * gAlienMoveDir s < 0
           \<or> a_x (aliens s ! i) + ALIEN_SPEED * gAlienMoveDir s + a_w (aliens s ! i) > WINDOW_WIDTH))"
  by (auto simp: needDescend_def first_index_None out_of_bounds_def Let_def)

lemma move_ship_and_bullets_fields [simp]:
  "gGameOver (move_ship_and_bullets s) = gGameOver s"
  "gLives (move_ship_and_bullets s) = gLives s"
  "gScore (move_ship_and_bullets s) = gScore s"
  "gAlienMoveDir (move_ship_and_bullets s) = gAlienMoveDir s"
  "aliens (move_ship_and_bullets s) = aliens s"
  "length (bullets (move_ship_and_bullets s)) = length (bullets s)"
  by (simp_all add: move_ship_and_bullets_def)

lemma needDescend_move_ship [simp]:
  "needDescend (move_ship_and_bullets s) = needDescend s"
  by (simp add: needDescend_def)

lemma move_player_y [simp]: "p_y (move_player p) = p_y p"
  by (simp add: move_player_def Let_def)

lemma move_aliens_fields [simp]:
  "gGameOver (move_aliens s) = gGameOver s"
  "gLives (move_aliens s) = gLives s"
  "gScore (move_aliens s) = gScore s"
  "player (move_aliens s) = player s"
  "bullets (move_aliens s) = bullets s"
  by (simp_all add: move_aliens_def)

lemma move_aliens_dir:
  "gAlienMoveDir (move_aliens s) = (if needDescend s then - gAlienMoveDir s else gAlienMoveDir s)"
  by (simp add: move_aliens_def)

lemma move_aliens_nth:
  assumes "length (aliens s) = ALIEN_COUNT" and "i < ALIEN_COUNT"
  shows "aliens (move_aliens s) ! i =
           (if needDescend s then descend_alien i (aliens s ! i)
            else shift_alien (gAlienMoveDir s) i (aliens s ! i))"
  using assms by (simp add: move_aliens_def nth_for_each)

lemma collide_bullet_fields [simp]:
  "gGameOver (collide_bullet b s) = gGameOver s"
  "gLives (collide_bullet b s) = gLives s"
  "gAlienMoveDir (collide_bullet b s) = gAlienMoveDir s"
  "player (collide_bullet b s) = player s"
  by (simp_all add: collide_bullet_def split: option.split)

lemma collide_fields [simp]:
  "gGameOver (collide s) = gGameOver s"
  "gLives (collide s) = gLives s"
  "gAlienMoveDir (collide s) = gAlienMoveDir s"
  "player (collide s) = player s"
proof -
  show "gGameOver (collide s) = gGameOver s"
    unfolding collide_def
    by (rule for_upto_preserves [where P = "\<lambda>t. gGameOver t = gGameOver s"]) simp_all
  show "gLives (collide s) = gLives s"
    unfolding collide_def
    by (rule for_upto_preserves [where P = "\<lambda>t. gLives t = gLives s"]) simp_all
  show "gAlienMoveDir (collide s) = gAlienMoveDir s"
    unfolding collide_def
    by (rule for_upto_preserves [where P = "\<lambda>t. gAlienMoveDir t = gAlienMoveDir s"]) simp_all
  show "player (collide s) = player s"
    unfolding collide_def
    by (rule for_upto_preserves [where P = "\<lambda>t. player t = player s"]) simp_all
qed

lemma only_off_refl: "only_off as as"
  by (simp add: only_off_def)

lemma only_off_collide_bullet:
  assumes "only_off as (aliens t)"
  shows "only_off as (aliens (collide_bullet b t))"
proof (cases "b_active (bullets t ! b)")
  case False
  then show ?thesis using assms by (simp add: collide_bullet_def)
next
  case True
  show ?thesis
  proof (cases "first_index ALIEN_COUNT (\<lambda>i. hits (bullets t ! b) (aliens t ! i))")
    case None
    then show ?thesis using assms True by (simp add: collide_bullet_def)
  next
    case (Some k)
    have "aliens (collide_bullet b t) = (aliens t)[k := (aliens t ! k)\<lparr> a_active := False \<rparr>]"
      using True Some by (simp add: collide_bullet_def)
    moreover have "length (aliens t) = length as"
      using assms by (simp add: only_off_def)
    moreover have "(aliens t)[k := (aliens t ! k)\<lparr> a_active := False \<rparr>] ! i = as ! i
          \<or> (aliens t)[k := (aliens t ! k)\<lparr> a_active := False \<rparr>] ! i
              = (as ! i)\<lparr> a_active := False \<rparr>"
      if "i < length as" for i
    proof (cases "i = k")
      case True
      from that assms have "aliens t ! i = as ! i \<or> aliens t ! i = (as ! i)\<lparr> a_active := False \<rparr>"
        by (simp add: only_off_def)
      then show ?thesis
        using True that \<open>length (aliens t) = length as\<close> by auto
    next
      case False
      then show ?thesis
        using that assms by (simp add: only_off_def)
    qed
    ultimately show ?thesis
      by (simp add: only_off_def)
  qed
qed

lemma only_off_collide: "only_off (aliens s) (aliens (collide s))"
  unfolding collide_def
  by (rule for_upto_preserves [where P = "\<lambda>t. only_off (aliens s) (aliens t)"])
     (simp_all add: only_off_collide_bullet only_off_refl)

lemma collide_alien_geometry:
  assumes "i < length (aliens s)"
  shows "a_x (aliens (collide s) ! i) = a_x (aliens s ! i)"
    and "a_y (aliens (collide s) ! i) = a_y (aliens s ! i)"
    and "a_w (aliens (collide s) ! i) = a_w (aliens s ! i)"
    and "a_h (aliens (collide s) ! i) = a_h (aliens s ! i)"
    and "a_active (aliens (collide s) ! i) \<Longrightarrow> a_active (aliens s ! i)"
  using only_off_collide [of s] assms by (auto simp: only_off_def)

lemma lose_life_fields [simp]:
  "gLives (lose_life s) = gLives s - 1"
  "gScore (lose_life s) = gScore s"
  "gAlienMoveDir (lose_life s) = gAlienMoveDir s"
  "player (lose_life s) = player s"
  "gGameOver (lose_life s) = (gGameOver s \<or> gLives s - 1 \<le> 0)"
  by (simp_all add: lose_life_def Let_def)

lemma lose_life_last:
  "gLives s - 1 \<le> 0 \<Longrightarrow> aliens (lose_life s) = aliens s \<and> bullets (lose_life s) = bullets s"
  by (simp add: lose_life_def Let_def)

lemma lose_life_wave_alien:
  "\<not> gLives s - 1 \<le> 0 \<Longrightarrow> length (aliens s) = ALIEN_COUNT \<Longrightarrow> i < ALIEN_COUNT \<Longrightarrow>
   aliens (lose_life s) ! i = wave_alien i (aliens s ! i)"
  by (simp add: lose_life_def Let_def nth_for_each)

lemma lose_life_wave_bullet:
  "\<not> gLives s - 1 \<le> 0 \<Longrightarrow> length (bullets s) = MAX_BULLETS \<Longrightarrow> b < MAX_BULLETS \<Longrightarrow>
   bullets (lose_life s) ! b = wave_bullet b (bullets s ! b)"
  by (simp add: lose_life_def Let_def nth_for_each)

lemma check_reached_hit:
  "\<exists>i<ALIEN_COUNT. reached s i \<Longrightarrow> check_reached s = lose_life s"
  by (auto simp: check_reached_def first_index_None split: option.split)

lemma check_reached_miss:
  "\<forall>i<ALIEN_COUNT. \<not> reached s i \<Longrightarrow> check_reached s = s"
  by (auto simp: check_reached_def first_index_Some split: option.split)

lemma allAliensDead_iff:
  "allAliensDead s \<longleftrightarrow> (\<forall>i<ALIEN_COUNT. \<not> a_active (aliens s ! i))"
  by (simp add: allAliensDead_def first_index_None)

lemma check_victory_fields [simp]:
  "gLives (check_victory s) = gLives s"
  "gScore (check_victory s) = gScore s"
  "gAlienMoveDir (check_victory s) = gAlienMoveDir s"
  "player (check_victory s) = player s"
  "aliens (check_victory s) = aliens s"
  "bullets (check_victory s) = bullets s"
  "gGameOver (check_victory s) = (gGameOver s \<or> allAliensDead s)"
  by (auto simp: check_victory_def)

lemma frame_running:
  "\<not> gGameOver s \<Longrightarrow> frame s = check_victory (check_reached (after_collisions s))"
  by (simp add: frame_def update_def after_collisions_def)

lemma frame_over: "gGameOver s \<Longrightarrow> frame s = s"
  by (simp add: frame_def update_def check_victory_def)

lemma after_collisions_fields [simp]:
  "gGameOver (after_collisions s) = gGameOver s"
  "gLives (after_collisions s) = gLives s"
  "gAlienMoveDir (after_collisions s) = gAlienMoveDir (move_aliens (move_ship_and_bullets s))"
  "length (aliens (after_collisions s)) = length (aliens s)"
  "length (bullets (after_collisions s)) = length (bullets s)"
  by (simp_all add: after_collisions_def)

lemma check_reached_dir [simp]:
  "gAlienMoveDir (check_reached s) = gAlienMoveDir s"
  by (simp add: check_reached_def split: option.split)

lemma frame_dir:
  "gAlienMoveDir (frame s) =
     (if gGameOver s then gAlienMoveDir s
      else gAlienMoveDir (move_aliens (move_ship_and_bullets s)))"
  by (simp add: frame_running frame_over)

lemma wave_alien_fields [simp]:
  "a_active (wave_alien i a)" "a_x (wave_alien i a) = 50 + 50 * int i" "a_y (wave_alien i a) = 50"
  "a_w (wave_alien i a) = a_w a" "a_h (wave_alien i a) = a_h a"
  by (simp_all add: wave_alien_def int_consts)

lemma wave_bullet_fields [simp]:
  "\<not> b_active (wave_bullet i b)"
  by (simp add: wave_bullet_def)

lemma frame_life_lost:
  assumes ok: "arrays_ok s" and run: "\<not> gGameOver s"
    and hit: "\<exists>i<ALIEN_COUNT. reached (after_collisions s) i"
  shows "frame s = check_victory (lose_life (after_collisions s))"
  using run hit by (simp add: frame_running check_reached_hit)

lemma frame_wave_restart:
  assumes ok: "arrays_ok s" and run: "\<not> gGameOver s"
    and hit: "\<exists>i<ALIEN_COUNT. reached (after_collisions s) i"
    and more: "\<not> gLives s - 1 \<le> 0"
  shows "\<forall>i<ALIEN_COUNT. aliens (frame s) ! i = wave_alien i (aliens (after_collisions s) ! i)"
    and "\<forall>b<MAX_BULLETS. bullets (frame s) ! b = wave_bullet b (bullets (after_collisions s) ! b)"
    and "\<not> gGameOver (frame s)"
proof -
  let ?t = "after_collisions s"
  have fr: "frame s = check_victory (lose_life ?t)"
    using ok run hit by (rule frame_life_lost)
  have more': "\<not> gLives ?t - 1 \<le> 0" using more by simp
  have la: "length (aliens ?t) = ALIEN_COUNT" and lb: "length (bullets ?t) = MAX_BULLETS"
    using ok by (simp_all add: arrays_ok_def)
  show a: "\<forall>i<ALIEN_COUNT. aliens (frame s) ! i = wave_alien i (aliens ?t ! i)"
    using more' la by (simp add: fr lose_life_wave_alien)
  show "\<forall>b<MAX_BULLETS. bullets (frame s) ! b = wave_bullet b (bullets ?t ! b)"
    using more' lb by (simp add: fr lose_life_wave_bullet)
  have "0 < ALIEN_COUNT" by (simp add: ALIEN_COUNT_def)
  moreover have "a_active (aliens (lose_life ?t) ! 0)"
    using more' la by (simp add: lose_life_wave_alien ALIEN_COUNT_def)
  ultimately have "\<not> allAliensDead (lose_life ?t)"
    unfolding allAliensDead_iff by blast
  then show "\<not> gGameOver (frame s)"
    using run more by (simp add: fr)
qed

lemma frame_aliens_no_restart:
  assumes run: "\<not> gGameOver s" and nr: "\<not> wave_restarts s"
  shows "aliens (frame s) = aliens (after_collisions s)"
proof (cases "\<exists>i<ALIEN_COUNT. reached (after_collisions s) i")
  case True
  then have "first_index ALIEN_COUNT (reached (after_collisions s)) \<noteq> None"
    by (simp add: first_index_None)
  with nr run have last: "gLives (after_collisions s) - 1 \<le> 0"
    by (simp add: wave_restarts_def)
  from True have "check_reached (after_collisions s) = lose_life (after_collisions s)"
    by (rule check_reached_hit)
  then show ?thesis
    using run last by (simp add: frame_running lose_life_last)
next
  case False
  then have "check_reached (after_collisions s) = after_collisions s"
    by (simp add: check_reached_miss)
  then show ?thesis
    using run by (simp add: frame_running)
qed

lemma frame_alien_xy_no_restart:
  assumes ok: "arrays_ok s" and run: "\<not> gGameOver s" and nr: "\<not> wave_restarts s"
    and i: "i < ALIEN_COUNT"
  shows "a_x (aliens (frame s) ! i) = a_x (aliens (move_aliens (move_ship_and_bullets s)) ! i)"
    and "a_y (aliens (frame s) ! i) = a_y (aliens (move_aliens (move_ship_and_bullets s)) ! i)"
proof -
  have "i < length (aliens (move_aliens (move_ship_and_bullets s)))"
    using ok i by (simp add: arrays_ok_def)
  then show "a_x (aliens (frame s) ! i) = a_x (aliens (move_aliens (move_ship_and_bullets s)) ! i)"
    and "a_y (aliens (frame s) ! i) = a_y (aliens (move_aliens (move_ship_and_bullets s)) ! i)"
    unfolding frame_aliens_no_restart [OF run nr] after_collisions_def
    by (simp_all add: collide_alien_geometry)
qed

lemma formation_moved_nth:
  assumes ok: "arrays_ok s" and i: "i < ALIEN_COUNT"
  shows "aliens (move_aliens (move_ship_and_bullets s)) ! i =
           (if needDescend s then descend_alien i (aliens s ! i)
            else shift_alien (gAlienMoveDir s) i (aliens s ! i))"
  using ok i by (simp add: move_aliens_nth arrays_ok_def)

section \<open>The game without input\<close>

lemma upt_8: "[0..<8] = [0,1,2,3,4,5,6,7]"
  by (simp add: upt_rec)

lemma upt_5: "[0..<5] = [0,1,2,3,4]"
  by (simp add: upt_rec)

lemma marching_fields [simp]:
  "gGameOver (marching x y d l) = False"
  "gLives (marching x y d l) = l"
  "gScore (marching x y d l) = 0"
  "gAlienMoveDir (marching x y d l) = d"
  "player (marching x y d l) = player init"
  "bullets (marching x y d l) = bullets init"
  "length (aliens (marching x y d l)) = ALIEN_COUNT"
  by (simp_all add: marching_def init_def)

lemma marching_alien:
  "i < ALIEN_COUNT \<Longrightarrow>
   aliens (marching x y d l) ! i =
     \<lparr> a_x = x + int i * 50, a_y = y, a_w = 32, a_h = 32, a_active = True \<rparr>"
  by (simp add: marching_def)

lemma marching_needDescend:
  "needDescend (marching x y d l) \<longleftrightarrow> x + d < 0 \<or> 258 < x + d"
proof
  assume "needDescend (marching x y d l)"
  then obtain i where "i < ALIEN_COUNT"
    and "x + int i * 50 + d < 0 \<or> x + int i * 50 + d + 32 > 640"
    by (auto simp: needDescend_iff marching_alien int_consts)
  then show "x + d < 0 \<or> 258 < x + d"
    by (auto simp: ALIEN_COUNT_def)
next
  assume "x + d < 0 \<or> 258 < x + d"
  then show "needDescend (marching x y d l)"
  proof
    assume "x + d < 0"
    then have "0 < ALIEN_COUNT \<and> a_active (aliens (marching x y d l) ! 0)
      \<and> (a_x (aliens (marching x y d l) ! 0) + ALIEN_SPEED * gAlienMoveDir (marching x y d l) < 0
         \<or> a_x (aliens (marching x y d l) ! 0) + ALIEN_SPEED * gAlienMoveDir (marching x y d l)
              + a_w (aliens (marching x y d l) ! 0) > WINDOW_WIDTH)"
      by (simp add: marching_alien ALIEN_COUNT_def int_consts)
    then show ?thesis unfolding needDescend_iff by blast
  next
    assume "258 < x + d"
    then have "7 < ALIEN_COUNT \<and> a_active (aliens (marching x y d l) ! 7)
      \<and> (a_x (aliens (marching x y d l) ! 7) + ALIEN_SPEED * gAlienMoveDir (marching x y d l) < 0
         \<or> a_x (aliens (marching x y d l) ! 7) + ALIEN_SPEED * gAlienMoveDir (marching x y d l)
              + a_w (aliens (marching x y d l) ! 7) > WINDOW_WIDTH)"
      by (simp add: marching_alien ALIEN_COUNT_def int_consts)
    then show ?thesis unfolding needDescend_iff by blast
  qed
qed

lemma marching_move_ship:
  "move_ship_and_bullets (marching x y d l) = marching x y d l"
  by (simp add: move_ship_and_bullets_def move_player_def update_bullet_def for_each_def
      marching_def init_def int_consts MAX_BULLETS_def upt_5 eval_nat_numeral Let_def
      signed_divide_int_def)

lemma marching_shift:
  "for_each ALIEN_COUNT (shift_alien d) (aliens (marching x y d l))
     = aliens (marching (x + d) y d l)"
  by (simp add: for_each_def shift_alien_def marching_def ALIEN_COUNT_def upt_8
      eval_nat_numeral int_consts)

lemma marching_descend:
  "for_each ALIEN_COUNT descend_alien (aliens (marching x y d l))
     = aliens (marching x (y + 20) d' l)"
  by (simp add: for_each_def descend_alien_def marching_def ALIEN_COUNT_def upt_8
      eval_nat_numeral int_consts)

lemma marching_wave:
  "for_each ALIEN_COUNT wave_alien (aliens (marching x y d l))
     = aliens (marching 50 50 d' l')"
  by (simp add: for_each_def wave_alien_def marching_def ALIEN_COUNT_def upt_8
      eval_nat_numeral int_consts)

lemma init_wave_bullets:
  "for_each MAX_BULLETS wave_bullet (bullets init) = bullets init"
  by (simp add: for_each_def wave_bullet_def init_def MAX_BULLETS_def upt_5 eval_nat_numeral)

lemma marching_move_aliens:
  "move_aliens (marching x y d l) =
     (if x + d < 0 \<or> 258 < x + d then marching x (y + 20) (- d) l
      else marching (x + d) y d l)"
  unfolding move_aliens_def marching_needDescend
  by (simp add: marching_shift marching_descend [where d' = "- d"])
     (simp add: marching_def)?

lemma marching_collide: "collide (marching x y d l) = marching x y d l"
proof -
  have "for_upto n collide_bullet (marching x y d l) = marching x y d l" if "n \<le> MAX_BULLETS" for n
    using that
  proof (induction n)
    case 0
    show ?case by simp
  next
    case (Suc n)
    then have "\<not> b_active (bullets (marching x y d l) ! n)"
      by (simp add: init_def)
    then show ?case
      using Suc by (simp add: collide_bullet_def)
  qed
  then show ?thesis by (simp add: collide_def)
qed

lemma marching_reached:
  "(\<exists>i<ALIEN_COUNT. reached (marching x y d l) i) \<longleftrightarrow> 376 \<le> y"
proof -
  have "reached (marching x y d l) i \<longleftrightarrow> 376 \<le> y" if "i < ALIEN_COUNT" for i
    using that by (simp add: reached_def marching_alien init_def int_consts)
  moreover have "0 < ALIEN_COUNT" by (simp add: ALIEN_COUNT_def)
  ultimately show ?thesis by blast
qed

lemma marching_alive: "\<not> allAliensDead (marching x y d l)"
proof -
  have "0 < ALIEN_COUNT" by (simp add: ALIEN_COUNT_def)
  moreover have "a_active (aliens (marching x y d l) ! 0)"
    by (simp add: marching_alien ALIEN_COUNT_def)
  ultimately show ?thesis
    unfolding allAliensDead_iff by blast
qed

lemma marching_after_collisions:
  "after_collisions (marching x y d l) =
     (if x + d < 0 \<or> 258 < x + d then marching x (y + 20) (- d) l
      else marching (x + d) y d l)"
  by (simp add: after_collisions_def marching_move_ship marching_move_aliens marching_collide)

lemma frame_marching_shift:
  assumes "0 \<le> x + d" and "x + d \<le> 258" and "y < 376"
  shows "frame (marching x y d l) = marching (x + d) y d l"
proof -
  have ac: "after_collisions (marching x y d l) = marching (x + d) y d l"
    using assms by (simp add: marching_after_collisions)
  have "\<forall>i<ALIEN_COUNT. \<not> reached (marching (x + d) y d l) i"
    using marching_reached [of "x + d" y d l] assms(3) by simp
  then have "check_reached (marching (x + d) y d l) = marching (x + d) y d l"
    by (rule check_reached_miss)
  then show ?thesis
    by (simp add: frame_running ac check_victory_def marching_alive)
qed

lemma frame_marching_descend:
  assumes "x + d < 0 \<or> 258 < x + d" and "y + 20 < 376"
  shows "frame (marching x y d l) = marching x (y + 20) (- d) l"
proof -
  have ac: "after_collisions (marching x y d l) = marching x (y + 20) (- d) l"
    using assms by (simp add: marching_after_collisions)
  have "\<forall>i<ALIEN_COUNT. \<not> reached (marching x (y + 20) (- d) l) i"
    using marching_reached [of x "y + 20" "- d" l] assms(2) by simp
  then have "check_reached (marching x (y + 20) (- d) l) = marching x (y + 20) (- d) l"
    by (rule check_reached_miss)
  then show ?thesis
    by (simp add: frame_running ac check_victory_def marching_alive)
qed

lemma frame_marching_wave_reset:
  assumes "x + d < 0 \<or> 258 < x + d" and "376 \<le> y + 20" and "1 < l"
  shows "frame (marching x y d l) = marching 50 50 (- d) (l - 1)"
proof -
  let ?t = "marching x (y + 20) (- d) l"
  have ac: "after_collisions (marching x y d l) = ?t"
    using assms by (simp add: marching_after_collisions)
  have "\<exists>i<ALIEN_COUNT. reached ?t i"
    using marching_reached [of x "y + 20" "- d" l] assms(2) by simp
  then have "check_reached ?t = lose_life ?t"
    by (rule check_reached_hit)
  moreover have "lose_life ?t = marching 50 50 (- d) (l - 1)"
    using assms(3)
    by (simp add: lose_life_def Let_def init_wave_bullets
          marching_wave [where d' = "- d" and l' = "l - 1"])
       (simp add: marching_def)?
  ultimately show ?thesis
    by (simp add: frame_running ac check_victory_def marching_alive)
qed

lemma frame_marching_last_life:
  assumes "x + d < 0 \<or> 258 < x + d" and "376 \<le> y + 20"
  shows "frame (marching x y d 1) = (marching x (y + 20) (- d) 0)\<lparr> gGameOver := True \<rparr>"
proof -
  let ?t = "marching x (y + 20) (- d) 1"
  have ac: "after_collisions (marching x y d 1) = ?t"
    using assms by (simp add: marching_after_collisions)
  have "\<exists>i<ALIEN_COUNT. reached ?t i"
    using marching_reached [of x "y + 20" "- d" 1] assms(2) by simp
  then have "check_reached ?t = lose_life ?t"
    by (rule check_reached_hit)
  moreover have "lose_life ?t = (marching x (y + 20) (- d) 0)\<lparr> gGameOver := True \<rparr>"
    by (simp add: lose_life_def Let_def) (simp add: marching_def)?
  ultimately show ?thesis
    by (simp add: frame_running ac check_victory_def)
qed

lemma marching_init: "marching 50 50 1 3 = init"
  by (simp add: marching_def init_def int_consts)

lemma marching_right_edge: "marching 258 50 1 3 = right_edge_state"
  by (simp add: marching_def right_edge_state_def init_def int_consts)

lemma marching_last_row: "marching 258 370 1 3 = last_row_state"
  by (simp add: marching_def last_row_state_def init_def int_consts)

lemma marching_lost: "(marching 258 390 (- 1) 0)\<lparr> gGameOver := True \<rparr> = lost_state"
  by (simp add: marching_def lost_state_def)

lemma march_right:
  assumes "reachable (marching x y 1 l)" and "0 \<le> x" and "y < 376"
  shows "x + int n \<le> 258 \<Longrightarrow> reachable (marching (x + int n) y 1 l)"
proof (induction n)
  case 0
  then show ?case using assms(1) by simp
next
  case (Suc n)
  then have r: "reachable (marching (x + int n) y 1 l)" by simp
  have eq: "frame (marching (x + int n) y 1 l) = marching (x + int (Suc n)) y 1 l"
    using frame_marching_shift [of "x + int n" 1 y l] Suc.prems assms(2,3)
    by (simp add: ac_simps)
  from reach_frame [OF r] show ?case unfolding eq .
qed

lemma march_left:
  assumes "reachable (marching x y (- 1) l)" and "x \<le> 258" and "y < 376"
  shows "0 \<le> x - int n \<Longrightarrow> reachable (marching (x - int n) y (- 1) l)"
proof (induction n)
  case 0
  then show ?case using assms(1) by simp
next
  case (Suc n)
  then have r: "reachable (marching (x - int n) y (- 1) l)" by simp
  have eq: "frame (marching (x - int n) y (- 1) l) = marching (x - int (Suc n)) y (- 1) l"
    using frame_marching_shift [of "x - int n" "- 1" y l] Suc.prems assms(2,3)
    by (simp add: algebra_simps)
  from reach_frame [OF r] show ?case unfolding eq .
qed

lemma march_to_edge:
  assumes r: "reachable (marching x y d l)" and d: "d = 1 \<or> d = - 1"
    and x: "0 \<le> x" "x \<le> 258" and y: "y < 376"
  shows "reachable (marching (edge d) y d l)"
proof (cases "d = 1")
  case True
  have "x + int (nat (258 - x)) \<le> 258" using x by simp
  from march_right [OF r [unfolded True] x(1) y this]
  show ?thesis using x True by (simp add: edge_def)
next
  case False
  with d have m: "d = - 1" by simp
  have "0 \<le> x - int (nat x)" using x by simp
  from march_left [OF r [unfolded m] x(2) y this]
  show ?thesis using x m by (simp add: edge_def)
qed

lemma edge_turns:
  "d = 1 \<or> d = - 1 \<Longrightarrow> edge d + d < 0 \<or> 258 < edge d + d"
  by (auto simp: edge_def)

lemma edge_range: "0 \<le> edge d" "edge d \<le> 258"
  by (simp_all add: edge_def)

lemma wave_rows:
  assumes r: "reachable (marching 50 50 d l)" and d: "d = 1 \<or> d = - 1"
  shows "k \<le> 16 \<Longrightarrow>
    reachable (marching (edge (d * (- 1) ^ k)) (50 + 20 * int k) (d * (- 1) ^ k) l)"
proof (induction k)
  case 0
  show ?case using march_to_edge [OF r d] by simp
next
  case (Suc k)
  let ?d = "d * (- 1) ^ k" and ?y = "50 + 20 * int k"
  have dk: "?d = 1 \<or> ?d = - 1"
    using d by (cases "even k") auto
  from Suc have rk: "reachable (marching (edge ?d) ?y ?d l)" by simp
  have "frame (marching (edge ?d) ?y ?d l) = marching (edge ?d) (?y + 20) (- ?d) l"
    using Suc.prems edge_turns [OF dk] by (intro frame_marching_descend) simp_all
  with reach_frame [OF rk] have "reachable (marching (edge ?d) (?y + 20) (- ?d) l)"
    by simp
  moreover have "- ?d = 1 \<or> - ?d = - 1" using dk by auto
  moreover have "?y + 20 < 376" using Suc.prems by simp
  ultimately have "reachable (marching (edge (- ?d)) (?y + 20) (- ?d) l)"
    using edge_range [of ?d] by (intro march_to_edge) simp_all
  then show ?case by (simp add: algebra_simps)
qed

lemma wave_last_row:
  assumes "reachable (marching 50 50 d l)" and "d = 1 \<or> d = - 1"
  shows "reachable (marching (edge d) 370 d l)"
  using wave_rows [OF assms, of 16] by simp

lemma reachable_right_edge_state: "reachable right_edge_state"
proof -
  have "reachable (marching 50 50 1 3)"
    by (simp add: marching_init reach_init)
  from wave_rows [OF this, of 0] show ?thesis
    by (simp add: edge_def marching_right_edge)
qed

lemma reachable_last_row_state: "reachable last_row_state"
proof -
  have "reachable (marching 50 50 1 3)"
    by (simp add: marching_init reach_init)
  from wave_last_row [OF this] show ?thesis
    by (simp add: edge_def marching_last_row)
qed

lemma reachable_lost_state: "reachable lost_state"
proof -
  have 1: "reachable (marching 258 370 1 3)"
    using reachable_last_row_state by (simp add: marching_last_row)
  have "frame (marching 258 370 1 3) = marching 50 50 (- 1) (3 - 1)"
    by (intro frame_marching_wave_reset) simp_all
  with reach_frame [OF 1] have "reachable (marching 50 50 (- 1) 2)" by simp
  from wave_last_row [OF this] have 2: "reachable (marching 0 370 (- 1) 2)"
    by (simp add: edge_def)
  have "frame (marching 0 370 (- 1) 2) = marching 50 50 (- (- 1)) (2 - 1)"
    by (intro frame_marching_wave_reset) simp_all
  with reach_frame [OF 2] have "reachable (marching 50 50 1 1)" by simp
  from wave_last_row [OF this] have 3: "reachable (marching 258 370 1 1)"
    by (simp add: edge_def)
  have "frame (marching 258 370 1 1) = (marching 258 (370 + 20) (- 1) 0)\<lparr> gGameOver := True \<rparr>"
    by (intro frame_marching_last_life) simp_all
  with reach_frame [OF 3] show ?thesis
    by (simp add: marching_lost)
qed

section \<open>Losing a life\<close>

text \<open>
  Claim C2. In a frame update with game-over false the number of lives stays or drops by
  exactly 1, however many aliens have reached the row of the player. If, after the
  movement and the collisions of the frame, some active alien has its bottom edge
  (y + h) at or below the top edge of the player, then lives drops by 1 and the score
  is not changed by the event; if lives is then \<open>\<le> 0\<close> the game is over (aliens and
  bullets stay as they are), and otherwise all 8 aliens are active at (50+50i, 50), all
  5 bullets are inactive and the game goes on. If no active alien has reached the row,
  lives is unchanged.
\<close>

theorem life_lost_once:
  assumes ok: "arrays_ok s" and run: "\<not> gGameOver s"
  shows "(gLives (frame s) = gLives s \<or> gLives (frame s) = gLives s - 1)
    \<and> ((\<exists>i<ALIEN_COUNT. a_active (aliens (after_collisions s) ! i)
            \<and> a_y (aliens (after_collisions s) ! i) + a_h (aliens (after_collisions s) ! i)
                \<ge> p_y (player (after_collisions s))) \<longrightarrow>
          gLives (frame s) = gLives s - 1
          \<and> gScore (frame s) = gScore (after_collisions s)
          \<and> (gLives s - 1 \<le> 0 \<longrightarrow>
               gGameOver (frame s) \<and> aliens (frame s) = aliens (after_collisions s)
               \<and> bullets (frame s) = bullets (after_collisions s))
          \<and> (\<not> gLives s - 1 \<le> 0 \<longrightarrow>
               \<not> gGameOver (frame s)
               \<and> (\<forall>i<8. a_active (aliens (frame s) ! i)
                      \<and> a_x (aliens (frame s) ! i) = 50 + 50 * int i
                      \<and> a_y (aliens (frame s) ! i) = 50)
               \<and> (\<forall>b<5. \<not> b_active (bullets (frame s) ! b))))
    \<and> (\<not> (\<exists>i<ALIEN_COUNT. a_active (aliens (after_collisions s) ! i)
            \<and> a_y (aliens (after_collisions s) ! i) + a_h (aliens (after_collisions s) ! i)
                \<ge> p_y (player (after_collisions s))) \<longrightarrow>
          gLives (frame s) = gLives s)"
proof -
  let ?t = "after_collisions s"
  let ?hit = "\<exists>i<ALIEN_COUNT. a_active (aliens ?t ! i)
            \<and> a_y (aliens ?t ! i) + a_h (aliens ?t ! i) \<ge> p_y (player ?t)"
  have hit_iff: "?hit \<longleftrightarrow> (\<exists>i<ALIEN_COUNT. reached ?t i)"
    by (simp add: reached_def)
  have miss: "gLives (frame s) = gLives s" if "\<not> ?hit"
  proof -
    from that have "\<forall>i<ALIEN_COUNT. \<not> reached ?t i" by (simp add: reached_def)
    then have "check_reached ?t = ?t" by (rule check_reached_miss)
    then show ?thesis using run by (simp add: frame_running)
  qed
  have hit: "gLives (frame s) = gLives s - 1
          \<and> gScore (frame s) = gScore ?t
          \<and> (gLives s - 1 \<le> 0 \<longrightarrow>
               gGameOver (frame s) \<and> aliens (frame s) = aliens ?t \<and> bullets (frame s) = bullets ?t)
          \<and> (\<not> gLives s - 1 \<le> 0 \<longrightarrow>
               \<not> gGameOver (frame s)
               \<and> (\<forall>i<8. a_active (aliens (frame s) ! i)
                      \<and> a_x (aliens (frame s) ! i) = 50 + 50 * int i
                      \<and> a_y (aliens (frame s) ! i) = 50)
               \<and> (\<forall>b<5. \<not> b_active (bullets (frame s) ! b)))" if "?hit"
  proof -
    from that have h: "\<exists>i<ALIEN_COUNT. reached ?t i" by (simp add: reached_def)
    have fr: "frame s = check_victory (lose_life ?t)"
      using ok run h by (rule frame_life_lost)
    have 1: "gLives (frame s) = gLives s - 1" by (simp add: fr)
    have 2: "gScore (frame s) = gScore ?t" by (simp add: fr)
    have 3: "gGameOver (frame s) \<and> aliens (frame s) = aliens ?t \<and> bullets (frame s) = bullets ?t"
      if "gLives s - 1 \<le> 0"
      using that by (simp add: fr lose_life_last)
    have 4: "\<not> gGameOver (frame s)
               \<and> (\<forall>i<8. a_active (aliens (frame s) ! i)
                      \<and> a_x (aliens (frame s) ! i) = 50 + 50 * int i
                      \<and> a_y (aliens (frame s) ! i) = 50)
               \<and> (\<forall>b<5. \<not> b_active (bullets (frame s) ! b))"
      if "\<not> gLives s - 1 \<le> 0"
      using frame_wave_restart [OF ok run h that]
      by (simp add: ALIEN_COUNT_def MAX_BULLETS_def)
    from 1 2 3 4 show ?thesis by blast
  qed
  from miss hit show ?thesis by blast
qed

text \<open>On the lowest row all eight aliens reach the player at once and one life is lost;
  with a single life left the same frame ends the game; the first frame of a game costs
  no life.\<close>

theorem life_lost_once_witness:
  "gLives (frame last_row_state) = gLives last_row_state - 1
   \<and> \<not> gGameOver (frame last_row_state)
   \<and> a_x (aliens (frame last_row_state) ! 7) = 400
   \<and> \<not> b_active (bullets (frame last_row_state) ! 4)
   \<and> gGameOver (frame (last_row_state\<lparr> gLives := 1 \<rparr>))
   \<and> gLives (frame init) = gLives init"
proof -
  let ?s = "last_row_state" and ?u = "last_row_state\<lparr> gLives := 1 \<rparr>"
  have ok: "arrays_ok ?s" "arrays_ok ?u" "arrays_ok init" by code_simp+
  have run: "\<not> gGameOver ?s" "\<not> gGameOver ?u" "\<not> gGameOver init" by code_simp+
  have "0 < ALIEN_COUNT \<and> a_active (aliens (after_collisions ?s) ! 0)
            \<and> a_y (aliens (after_collisions ?s) ! 0) + a_h (aliens (after_collisions ?s) ! 0)
                \<ge> p_y (player (after_collisions ?s))"
    by code_simp
  then have hit_s: "\<exists>i<ALIEN_COUNT. a_active (aliens (after_collisions ?s) ! i)
            \<and> a_y (aliens (after_collisions ?s) ! i) + a_h (aliens (after_collisions ?s) ! i)
                \<ge> p_y (player (after_collisions ?s))"
    by blast
  have "0 < ALIEN_COUNT \<and> a_active (aliens (after_collisions ?u) ! 0)
            \<and> a_y (aliens (after_collisions ?u) ! 0) + a_h (aliens (after_collisions ?u) ! 0)
                \<ge> p_y (player (after_collisions ?u))"
    by code_simp
  then have hit_u: "\<exists>i<ALIEN_COUNT. a_active (aliens (after_collisions ?u) ! i)
            \<and> a_y (aliens (after_collisions ?u) ! i) + a_h (aliens (after_collisions ?u) ! i)
                \<ge> p_y (player (after_collisions ?u))"
    by blast
  have "\<forall>i\<in>set [0..<ALIEN_COUNT]. \<not> (a_active (aliens (after_collisions init) ! i)
            \<and> a_y (aliens (after_collisions init) ! i) + a_h (aliens (after_collisions init) ! i)
                \<ge> p_y (player (after_collisions init)))"
    by code_simp
  then have miss: "\<not> (\<exists>i<ALIEN_COUNT. a_active (aliens (after_collisions init) ! i)
            \<and> a_y (aliens (after_collisions init) ! i) + a_h (aliens (after_collisions init) ! i)
                \<ge> p_y (player (after_collisions init)))"
    by simp
  have lives: "\<not> gLives ?s - 1 \<le> 0" "gLives ?u - 1 \<le> 0" by code_simp+
  have "gLives (frame ?s) = gLives ?s - 1 \<and> \<not> gGameOver (frame ?s)
      \<and> a_x (aliens (frame ?s) ! 7) = 50 + 50 * int 7
      \<and> \<not> b_active (bullets (frame ?s) ! 4)"
    using life_lost_once [OF ok(1) run(1)] hit_s lives(1) by simp
  moreover have "gGameOver (frame ?u)"
    using life_lost_once [OF ok(2) run(2)] hit_u lives(2) by blast
  moreover have "gLives (frame init) = gLives init"
    using life_lost_once [OF ok(3) run(3)] miss by blast
  ultimately show ?thesis by simp
qed

section \<open>Direction across a wave reset\<close>

text \<open>
  Claim C10. When the row-reach event fires in a frame and a life remains after the
  decrement, the aliens are back at their starting positions and the bullets are
  inactive, but the direction of the formation after the frame is the direction after
  the formation movement of that frame (the old one, or its negation if the formation
  descended): the wave reset does not touch it. Restarting a finished game sets the
  direction to +1; no other event changes the direction, and a frame update keeps it or
  negates it.
\<close>

theorem wave_reset_keeps_direction:
  assumes ok: "arrays_ok s" and run: "\<not> gGameOver s"
    and hit: "\<exists>i<ALIEN_COUNT. a_active (aliens (after_collisions s) ! i)
            \<and> a_y (aliens (after_collisions s) ! i) + a_h (aliens (after_collisions s) ! i)
                \<ge> p_y (player (after_collisions s))"
    and more: "0 < gLives s - 1"
  shows "gAlienMoveDir (frame s) = gAlienMoveDir (move_aliens (move_ship_and_bullets s))
    \<and> gAlienMoveDir (frame s) = (if needDescend s then - gAlienMoveDir s else gAlienMoveDir s)
    \<and> \<not> gGameOver (frame s)
    \<and> (\<forall>i<8. a_active (aliens (frame s) ! i)
            \<and> a_x (aliens (frame s) ! i) = 50 + 50 * int i \<and> a_y (aliens (frame s) ! i) = 50)
    \<and> (\<forall>b<5. \<not> b_active (bullets (frame s) ! b))
    \<and> (gGameOver t \<longrightarrow> gAlienMoveDir (handle_event (SDL_KEYDOWN SDLK_r) t) = 1)
    \<and> (e \<noteq> SDL_KEYDOWN SDLK_r \<longrightarrow> gAlienMoveDir (handle_event e t) = gAlienMoveDir t)
    \<and> (gAlienMoveDir (frame t) = gAlienMoveDir t \<or> gAlienMoveDir (frame t) = - gAlienMoveDir t)"
proof -
  have h: "\<exists>i<ALIEN_COUNT. reached (after_collisions s) i"
    using hit by (simp add: reached_def)
  have m: "\<not> gLives s - 1 \<le> 0" using more by simp
  have 1: "gAlienMoveDir (frame s) = gAlienMoveDir (move_aliens (move_ship_and_bullets s))"
    using run by (simp add: frame_dir)
  have 2: "gAlienMoveDir (frame s) = (if needDescend s then - gAlienMoveDir s else gAlienMoveDir s)"
    by (simp add: 1 move_aliens_dir)
  have 3: "\<not> gGameOver (frame s)
    \<and> (\<forall>i<8. a_active (aliens (frame s) ! i)
            \<and> a_x (aliens (frame s) ! i) = 50 + 50 * int i \<and> a_y (aliens (frame s) ! i) = 50)
    \<and> (\<forall>b<5. \<not> b_active (bullets (frame s) ! b))"
    using frame_wave_restart [OF ok run h m] by (simp add: ALIEN_COUNT_def MAX_BULLETS_def)
  have 4: "gGameOver t \<longrightarrow> gAlienMoveDir (handle_event (SDL_KEYDOWN SDLK_r) t) = 1"
    by (simp add: restart_def resetGame_def)
  have 5: "e \<noteq> SDL_KEYDOWN SDLK_r \<longrightarrow> gAlienMoveDir (handle_event e t) = gAlienMoveDir t"
    by (induction e t rule: handle_event.induct)
       (simp_all add: fire_bullet_def split: option.split)
  have 6: "gAlienMoveDir (frame t) = gAlienMoveDir t \<or> gAlienMoveDir (frame t) = - gAlienMoveDir t"
    by (simp add: frame_dir move_aliens_dir)
  from 1 2 3 4 5 6 show ?thesis by blast
qed

text \<open>On the lowest row at the right edge the formation turns left, reaches the player
  and is reset: the new wave starts moving left. Restart gives direction +1, firing
  leaves the direction alone.\<close>

theorem wave_reset_keeps_direction_witness:
  "gAlienMoveDir last_row_state = 1 \<and> gAlienMoveDir (frame last_row_state) = - 1
   \<and> gAlienMoveDir (move_aliens (move_ship_and_bullets last_row_state)) = - 1
   \<and> a_y (aliens (frame last_row_state) ! 0) = 50
   \<and> gAlienMoveDir (handle_event (SDL_KEYDOWN SDLK_r)
         (last_row_state\<lparr> gGameOver := True, gAlienMoveDir := - 1 \<rparr>)) = 1
   \<and> gAlienMoveDir (handle_event (SDL_KEYDOWN SDLK_SPACE)
         (last_row_state\<lparr> gGameOver := True, gAlienMoveDir := - 1 \<rparr>)) = - 1"
proof -
  let ?s = "last_row_state" and ?t = "last_row_state\<lparr> gGameOver := True, gAlienMoveDir := - 1 \<rparr>"
  have ok: "arrays_ok ?s" by code_simp
  have run: "\<not> gGameOver ?s" by code_simp
  have "0 < ALIEN_COUNT \<and> a_active (aliens (after_collisions ?s) ! 0)
            \<and> a_y (aliens (after_collisions ?s) ! 0) + a_h (aliens (after_collisions ?s) ! 0)
                \<ge> p_y (player (after_collisions ?s))"
    by code_simp
  then have hit: "\<exists>i<ALIEN_COUNT. a_active (aliens (after_collisions ?s) ! i)
            \<and> a_y (aliens (after_collisions ?s) ! i) + a_h (aliens (after_collisions ?s) ! i)
                \<ge> p_y (player (after_collisions ?s))"
    by blast
  have more: "0 < gLives ?s - 1" by code_simp
  have nd: "needDescend ?s" "gAlienMoveDir ?s = 1" by code_simp+
  have t: "gGameOver ?t" "gAlienMoveDir ?t = - 1" by simp_all
  show ?thesis
    using wave_reset_keeps_direction [OF ok run hit more, of ?t "SDL_KEYDOWN SDLK_SPACE"] nd t
    by simp
qed

section \<open>Formation movement\<close>

text \<open>
  Claim C1, as stated, for the whole frame update: whenever an active alien would cross
  a border, the frame update adds exactly 20 to the y of every active alien and changes
  no x. This fails in the frame whose descent brings the formation to the row of the
  player while a life remains: the row check of the same frame puts every alien back at
  (50+50i, 50). The state \<open>last_row_state\<close> is reached by a game without input; in it
  alien 7 is at (608, 370) and would cross the right border; after the frame update it
  is at (400, 50), not at (608, 390).
\<close>

theorem formation_step_counterexample:
  "reachable last_row_state
   \<and> arrays_ok last_row_state \<and> \<not> gGameOver last_row_state
   \<and> a_active (aliens last_row_state ! 7)
   \<and> a_x (aliens last_row_state ! 7) + ALIEN_SPEED * gAlienMoveDir last_row_state
        + a_w (aliens last_row_state ! 7) > WINDOW_WIDTH
   \<and> a_x (aliens last_row_state ! 7) = 608 \<and> a_y (aliens last_row_state ! 7) = 370
   \<and> a_x (aliens (frame last_row_state) ! 7) = 400 \<and> a_y (aliens (frame last_row_state) ! 7) = 50"
proof -
  have "arrays_ok last_row_state \<and> \<not> gGameOver last_row_state
   \<and> a_active (aliens last_row_state ! 7)
   \<and> a_x (aliens last_row_state ! 7) + ALIEN_SPEED * gAlienMoveDir last_row_state
        + a_w (aliens last_row_state ! 7) > WINDOW_WIDTH
   \<and> a_x (aliens last_row_state ! 7) = 608 \<and> a_y (aliens last_row_state ! 7) = 370
   \<and> a_x (aliens (frame last_row_state) ! 7) = 400 \<and> a_y (aliens (frame last_row_state) ! 7) = 50"
    by code_simp
  with reachable_last_row_state show ?thesis by simp
qed

text \<open>
  Claim C1, amended. In a state with game-over false, the flag \<open>needDescend\<close> is set
  exactly if some active alien's prospective x (x plus ALIEN_SPEED times direction) is
  below 0 or puts its right edge past the window width. If it is set, the formation
  movement of the frame adds exactly 20 to the y of every active alien and changes
  nothing else of any alien, and the direction after the frame update is the negated
  one. If it is not set, the formation movement adds ALIEN_SPEED times direction to the x
  of every active alien and changes nothing else of any alien, and the direction after
  the frame update is unchanged. The decision is one for the whole row. The x and y of
  every alien at the end of the frame update are those after the formation movement,
  unless the frame ends with a wave reset (an active alien reached the row of the player
  and a life remains): then every alien is at (50+50i, 50).
\<close>

theorem formation_step:
  assumes ok: "arrays_ok s" and run: "\<not> gGameOver s"
  shows "(needDescend s \<longleftrightarrow>
       (\<exists>i<ALIEN_COUNT. a_active (aliens s ! i)
          \<and> (a_x (aliens s ! i) + ALIEN_SPEED * gAlienMoveDir s < 0
             \<or> a_x (aliens s ! i) + ALIEN_SPEED * gAlienMoveDir s + a_w (aliens s ! i)
                 > WINDOW_WIDTH)))
    \<and> (needDescend s \<longrightarrow>
         gAlienMoveDir (frame s) = - gAlienMoveDir s
         \<and> (\<forall>i<ALIEN_COUNT. aliens (move_aliens (move_ship_and_bullets s)) ! i =
               (if a_active (aliens s ! i)
                then (aliens s ! i)\<lparr> a_y := a_y (aliens s ! i) + 20 \<rparr> else aliens s ! i))
         \<and> (\<not> wave_restarts s \<longrightarrow>
              (\<forall>i<ALIEN_COUNT. a_x (aliens (frame s) ! i) = a_x (aliens s ! i)
                 \<and> a_y (aliens (frame s) ! i) =
                     (if a_active (aliens s ! i) then a_y (aliens s ! i) + 20
                      else a_y (aliens s ! i)))))
    \<and> (\<not> needDescend s \<longrightarrow>
         gAlienMoveDir (frame s) = gAlienMoveDir s
         \<and> (\<forall>i<ALIEN_COUNT. aliens (move_aliens (move_ship_and_bullets s)) ! i =
               (if a_active (aliens s ! i)
                then (aliens s ! i)\<lparr> a_x := a_x (aliens s ! i) + ALIEN_SPEED * gAlienMoveDir s \<rparr>
                else aliens s ! i))
         \<and> (\<not> wave_restarts s \<longrightarrow>
              (\<forall>i<ALIEN_COUNT. a_y (aliens (frame s) ! i) = a_y (aliens s ! i)
                 \<and> a_x (aliens (frame s) ! i) =
                     (if a_active (aliens s ! i)
                      then a_x (aliens s ! i) + ALIEN_SPEED * gAlienMoveDir s
                      else a_x (aliens s ! i)))))
    \<and> (wave_restarts s \<longrightarrow>
         (\<forall>i<ALIEN_COUNT. a_x (aliens (frame s) ! i) = 50 + 50 * int i
            \<and> a_y (aliens (frame s) ! i) = 50))"
proof -
  let ?m = "move_aliens (move_ship_and_bullets s)"
  have c1: "needDescend s \<longleftrightarrow>
       (\<exists>i<ALIEN_COUNT. a_active (aliens s ! i)
          \<and> (a_x (aliens s ! i) + ALIEN_SPEED * gAlienMoveDir s < 0
             \<or> a_x (aliens s ! i) + ALIEN_SPEED * gAlienMoveDir s + a_w (aliens s ! i)
                 > WINDOW_WIDTH))"
    by (rule needDescend_iff)
  have c2: "needDescend s \<longrightarrow>
         gAlienMoveDir (frame s) = - gAlienMoveDir s
         \<and> (\<forall>i<ALIEN_COUNT. aliens ?m ! i =
               (if a_active (aliens s ! i)
                then (aliens s ! i)\<lparr> a_y := a_y (aliens s ! i) + 20 \<rparr> else aliens s ! i))
         \<and> (\<not> wave_restarts s \<longrightarrow>
              (\<forall>i<ALIEN_COUNT. a_x (aliens (frame s) ! i) = a_x (aliens s ! i)
                 \<and> a_y (aliens (frame s) ! i) =
                     (if a_active (aliens s ! i) then a_y (aliens s ! i) + 20
                      else a_y (aliens s ! i))))"
  proof
    assume nd: "needDescend s"
    have "gAlienMoveDir (frame s) = - gAlienMoveDir s"
      using run nd by (simp add: frame_dir move_aliens_dir)
    moreover have "\<forall>i<ALIEN_COUNT. aliens ?m ! i =
               (if a_active (aliens s ! i)
                then (aliens s ! i)\<lparr> a_y := a_y (aliens s ! i) + 20 \<rparr> else aliens s ! i)"
      using ok nd by (simp add: formation_moved_nth descend_alien_def ALIEN_DESCENT_def)
    moreover have "\<forall>i<ALIEN_COUNT. a_x (aliens (frame s) ! i) = a_x (aliens s ! i)
                 \<and> a_y (aliens (frame s) ! i) =
                     (if a_active (aliens s ! i) then a_y (aliens s ! i) + 20
                      else a_y (aliens s ! i))"
      if "\<not> wave_restarts s"
      using ok run nd that
      by (simp add: frame_alien_xy_no_restart formation_moved_nth descend_alien_def
            ALIEN_DESCENT_def)
    ultimately show "gAlienMoveDir (frame s) = - gAlienMoveDir s
         \<and> (\<forall>i<ALIEN_COUNT. aliens ?m ! i =
               (if a_active (aliens s ! i)
                then (aliens s ! i)\<lparr> a_y := a_y (aliens s ! i) + 20 \<rparr> else aliens s ! i))
         \<and> (\<not> wave_restarts s \<longrightarrow>
              (\<forall>i<ALIEN_COUNT. a_x (aliens (frame s) ! i) = a_x (aliens s ! i)
                 \<and> a_y (aliens (frame s) ! i) =
                     (if a_active (aliens s ! i) then a_y (aliens s ! i) + 20
                      else a_y (aliens s ! i))))"
      by blast
  qed
  have c3: "\<not> needDescend s \<longrightarrow>
         gAlienMoveDir (frame s) = gAlienMoveDir s
         \<and> (\<forall>i<ALIEN_COUNT. aliens ?m ! i =
               (if a_active (aliens s ! i)
                then (aliens s ! i)\<lparr> a_x := a_x (aliens s ! i) + ALIEN_SPEED * gAlienMoveDir s \<rparr>
                else aliens s ! i))
         \<and> (\<not> wave_restarts s \<longrightarrow>
              (\<forall>i<ALIEN_COUNT. a_y (aliens (frame s) ! i) = a_y (aliens s ! i)
                 \<and> a_x (aliens (frame s) ! i) =
                     (if a_active (aliens s ! i)
                      then a_x (aliens s ! i) + ALIEN_SPEED * gAlienMoveDir s
                      else a_x (aliens s ! i))))"
  proof
    assume nd: "\<not> needDescend s"
    have "gAlienMoveDir (frame s) = gAlienMoveDir s"
      using run nd by (simp add: frame_dir move_aliens_dir)
    moreover have "\<forall>i<ALIEN_COUNT. aliens ?m ! i =
               (if a_active (aliens s ! i)
                then (aliens s ! i)\<lparr> a_x := a_x (aliens s ! i) + ALIEN_SPEED * gAlienMoveDir s \<rparr>
                else aliens s ! i)"
      using ok nd by (simp add: formation_moved_nth shift_alien_def)
    moreover have "\<forall>i<ALIEN_COUNT. a_y (aliens (frame s) ! i) = a_y (aliens s ! i)
                 \<and> a_x (aliens (frame s) ! i) =
                     (if a_active (aliens s ! i)
                      then a_x (aliens s ! i) + ALIEN_SPEED * gAlienMoveDir s
                      else a_x (aliens s ! i))"
      if "\<not> wave_restarts s"
      using ok run nd that
      by (simp add: frame_alien_xy_no_restart formation_moved_nth shift_alien_def)
    ultimately show "gAlienMoveDir (frame s) = gAlienMoveDir s
         \<and> (\<forall>i<ALIEN_COUNT. aliens ?m ! i =
               (if a_active (aliens s ! i)
                then (aliens s ! i)\<lparr> a_x := a_x (aliens s ! i) + ALIEN_SPEED * gAlienMoveDir s \<rparr>
                else aliens s ! i))
         \<and> (\<not> wave_restarts s \<longrightarrow>
              (\<forall>i<ALIEN_COUNT. a_y (aliens (frame s) ! i) = a_y (aliens s ! i)
                 \<and> a_x (aliens (frame s) ! i) =
                     (if a_active (aliens s ! i)
                      then a_x (aliens s ! i) + ALIEN_SPEED * gAlienMoveDir s
                      else a_x (aliens s ! i))))"
      by blast
  qed
  have c4: "wave_restarts s \<longrightarrow>
         (\<forall>i<ALIEN_COUNT. a_x (aliens (frame s) ! i) = 50 + 50 * int i
            \<and> a_y (aliens (frame s) ! i) = 50)"
  proof
    assume w: "wave_restarts s"
    then have h: "\<exists>i<ALIEN_COUNT. reached (after_collisions s) i"
      and m: "\<not> gLives s - 1 \<le> 0"
      by (simp_all add: wave_restarts_def first_index_None)
    show "\<forall>i<ALIEN_COUNT. a_x (aliens (frame s) ! i) = 50 + 50 * int i
            \<and> a_y (aliens (frame s) ! i) = 50"
      using frame_wave_restart(1) [OF ok run h m] by simp
  qed
  show ?thesis
    by (rule conjI [OF c1 conjI [OF c2 conjI [OF c3 c4]]])
qed

text \<open>The first frame of a game shifts the row right by 1; at the right edge the row
  descends by 20 and turns; on the lowest row the descent ends in a wave reset.\<close>

theorem formation_step_witness:
  "gAlienMoveDir (frame init) = 1
   \<and> a_x (aliens (frame init) ! 0) = 51 \<and> a_y (aliens (frame init) ! 0) = 50
   \<and> gAlienMoveDir (frame right_edge_state) = - 1
   \<and> a_x (aliens (frame right_edge_state) ! 0) = 258
   \<and> a_y (aliens (frame right_edge_state) ! 0) = 70
   \<and> a_y (aliens (frame last_row_state) ! 0) = 50"
proof -
  have i0: "0 < ALIEN_COUNT" by (simp add: ALIEN_COUNT_def)
  have a: "arrays_ok init" "\<not> gGameOver init" "\<not> needDescend init" "\<not> wave_restarts init"
    "a_active (aliens init ! 0)" "a_x (aliens init ! 0) = 50" "a_y (aliens init ! 0) = 50"
    "gAlienMoveDir init = 1"
    by code_simp+
  have b: "arrays_ok right_edge_state" "\<not> gGameOver right_edge_state"
    "needDescend right_edge_state" "\<not> wave_restarts right_edge_state"
    "a_active (aliens right_edge_state ! 0)" "a_x (aliens right_edge_state ! 0) = 258"
    "a_y (aliens right_edge_state ! 0) = 50" "gAlienMoveDir right_edge_state = 1"
    by code_simp+
  have c: "arrays_ok last_row_state" "\<not> gGameOver last_row_state" "wave_restarts last_row_state"
    by code_simp+
  from formation_step [OF a(1,2)] a(3,4) i0
  have "gAlienMoveDir (frame init) = gAlienMoveDir init
    \<and> a_y (aliens (frame init) ! 0) = a_y (aliens init ! 0)
    \<and> a_x (aliens (frame init) ! 0) =
          (if a_active (aliens init ! 0) then a_x (aliens init ! 0) + ALIEN_SPEED * gAlienMoveDir init
           else a_x (aliens init ! 0))"
    by blast
  then have 1: "gAlienMoveDir (frame init) = 1
   \<and> a_x (aliens (frame init) ! 0) = 51 \<and> a_y (aliens (frame init) ! 0) = 50"
    using a(5-8) by (simp add: ALIEN_SPEED_def)
  from formation_step [OF b(1,2)] b(3,4) i0
  have "gAlienMoveDir (frame right_edge_state) = - gAlienMoveDir right_edge_state
    \<and> a_x (aliens (frame right_edge_state) ! 0) = a_x (aliens right_edge_state ! 0)
    \<and> a_y (aliens (frame right_edge_state) ! 0) =
          (if a_active (aliens right_edge_state ! 0) then a_y (aliens right_edge_state ! 0) + 20
           else a_y (aliens right_edge_state ! 0))"
    by blast
  then have 2: "gAlienMoveDir (frame right_edge_state) = - 1
   \<and> a_x (aliens (frame right_edge_state) ! 0) = 258
   \<and> a_y (aliens (frame right_edge_state) ! 0) = 70"
    using b(5-8) by simp
  from formation_step [OF c(1,2)] c(3) i0
  have 3: "a_y (aliens (frame last_row_state) ! 0) = 50"
    by blast
  from 1 2 3 show ?thesis by simp
qed

section \<open>The formation stays on one row\<close>

lemma row_aligned_init: "row_aligned (aliens init)"
  by (simp add: row_aligned_def init_def)

lemma descend_alien_fields [simp]:
  "a_active (descend_alien i a) = a_active a"
  "a_x (descend_alien i a) = a_x a"
  "a_y (descend_alien i a) = (if a_active a then a_y a + ALIEN_DESCENT else a_y a)"
  by (simp_all add: descend_alien_def)

lemma shift_alien_fields [simp]:
  "a_active (shift_alien d i a) = a_active a"
  "a_y (shift_alien d i a) = a_y a"
  "a_x (shift_alien d i a) = (if a_active a then a_x a + ALIEN_SPEED * d else a_x a)"
  by (simp_all add: shift_alien_def)

lemma move_aliens_active:
  assumes "length (aliens s) = ALIEN_COUNT" and "i < ALIEN_COUNT"
  shows "a_active (aliens (move_aliens s) ! i) = a_active (aliens s ! i)"
  by (simp add: move_aliens_nth [OF assms])

lemma move_aliens_y:
  assumes "length (aliens s) = ALIEN_COUNT" and "i < ALIEN_COUNT"
  shows "a_y (aliens (move_aliens s) ! i) =
           (if needDescend s \<and> a_active (aliens s ! i) then a_y (aliens s ! i) + ALIEN_DESCENT
            else a_y (aliens s ! i))"
  by (simp add: move_aliens_nth [OF assms])

lemma row_aligned_move_aliens:
  assumes len: "length (aliens s) = ALIEN_COUNT" and al: "row_aligned (aliens s)"
  shows "row_aligned (aliens (move_aliens s))"
  unfolding row_aligned_def
proof (intro allI impI)
  fix i j
  assume i: "i < ALIEN_COUNT" and j: "j < ALIEN_COUNT"
    and act: "a_active (aliens (move_aliens s) ! i) \<and> a_active (aliens (move_aliens s) ! j)"
  from act have old: "a_active (aliens s ! i) \<and> a_active (aliens s ! j)"
    by (simp add: move_aliens_active [OF len i] move_aliens_active [OF len j])
  with al i j have "a_y (aliens s ! i) = a_y (aliens s ! j)"
    unfolding row_aligned_def by blast
  with old show "a_y (aliens (move_aliens s) ! i) = a_y (aliens (move_aliens s) ! j)"
    by (simp add: move_aliens_y [OF len i] move_aliens_y [OF len j])
qed

lemma row_aligned_collide:
  assumes len: "length (aliens s) = ALIEN_COUNT" and al: "row_aligned (aliens s)"
  shows "row_aligned (aliens (collide s))"
  unfolding row_aligned_def
proof (intro allI impI)
  fix i j
  assume i: "i < ALIEN_COUNT" and j: "j < ALIEN_COUNT"
    and act: "a_active (aliens (collide s) ! i) \<and> a_active (aliens (collide s) ! j)"
  from i j len have il: "i < length (aliens s)" and jl: "j < length (aliens s)" by simp_all
  from act have "a_active (aliens s ! i) \<and> a_active (aliens s ! j)"
    using collide_alien_geometry(5) [OF il] collide_alien_geometry(5) [OF jl] by blast
  with al i j have "a_y (aliens s ! i) = a_y (aliens s ! j)"
    unfolding row_aligned_def by blast
  then show "a_y (aliens (collide s) ! i) = a_y (aliens (collide s) ! j)"
    by (simp add: collide_alien_geometry(2) [OF il] collide_alien_geometry(2) [OF jl])
qed

lemma row_aligned_lose_life:
  assumes len: "length (aliens s) = ALIEN_COUNT" and al: "row_aligned (aliens s)"
  shows "row_aligned (aliens (lose_life s))"
proof (cases "gLives s - 1 \<le> 0")
  case True
  then show ?thesis using al by (simp add: lose_life_last)
next
  case False
  then show ?thesis
    using len by (simp add: row_aligned_def lose_life_wave_alien)
qed

lemma row_aligned_check_reached:
  assumes len: "length (aliens s) = ALIEN_COUNT" and al: "row_aligned (aliens s)"
  shows "row_aligned (aliens (check_reached s))"
  using assms by (simp add: check_reached_def row_aligned_lose_life split: option.split)

lemma row_aligned_frame:
  assumes ok: "arrays_ok s" and al: "row_aligned (aliens s)"
  shows "row_aligned (aliens (frame s))"
proof (cases "gGameOver s")
  case True
  then show ?thesis using al by (simp add: frame_over)
next
  case False
  have len: "length (aliens s) = ALIEN_COUNT" using ok by (simp add: arrays_ok_def)
  have "row_aligned (aliens (move_aliens (move_ship_and_bullets s)))"
    using len al by (simp add: row_aligned_move_aliens)
  then have "row_aligned (aliens (after_collisions s))"
    unfolding after_collisions_def using len by (simp add: row_aligned_collide)
  then have "row_aligned (aliens (check_reached (after_collisions s)))"
    using len by (simp add: row_aligned_check_reached)
  then show ?thesis
    using False by (simp add: frame_running)
qed

lemma row_aligned_handle_event:
  assumes ok: "arrays_ok s" and al: "row_aligned (aliens s)"
  shows "row_aligned (aliens (handle_event e s))"
proof (cases "e = SDL_KEYDOWN SDLK_r \<and> gGameOver s")
  case True
  then show ?thesis
    using ok by (simp add: restart_def resetGame_init row_aligned_init)
next
  case False
  then have "aliens (handle_event e s) = aliens s"
    by (induction e s rule: handle_event.induct)
       (simp_all add: restart_def fire_bullet_def split: option.split)
  then show ?thesis using al by simp
qed

lemma reachable_row_aligned: "reachable s \<Longrightarrow> row_aligned (aliens s)"
proof (induction rule: reachable.induct)
  case reach_init
  show ?case by (rule row_aligned_init)
next
  case (reach_event s e)
  then show ?case by (simp add: row_aligned_handle_event reachable_arrays_ok)
next
  case (reach_frame s)
  then show ?case by (simp add: row_aligned_frame reachable_arrays_ok)
qed

text \<open>
  Claim C8. In every state reachable from the initial state by events and frame updates,
  any two active aliens have the same y coordinate. (The start of the game, the restart
  and the wave reset put every alien at y = 50, a descent adds 20 to the y of every
  active alien, a horizontal move changes no y, and a collision only deactivates aliens.)
\<close>

theorem formation_coherence:
  assumes "reachable s"
    and "i < ALIEN_COUNT" and "j < ALIEN_COUNT"
    and "a_active (aliens s ! i)" and "a_active (aliens s ! j)"
  shows "a_y (aliens s ! i) = a_y (aliens s ! j)"
  using reachable_row_aligned [OF assms(1)] assms(2-5) unfolding row_aligned_def by blast

text \<open>After firing and two frames of a new game, aliens 0 and 7 are active and on the
  same row.\<close>

theorem formation_coherence_witness:
  "a_y (aliens (frame (frame (handle_event (SDL_KEYDOWN SDLK_SPACE) init))) ! 0)
     = a_y (aliens (frame (frame (handle_event (SDL_KEYDOWN SDLK_SPACE) init))) ! 7)"
proof -
  let ?s = "frame (frame (handle_event (SDL_KEYDOWN SDLK_SPACE) init))"
  have r: "reachable ?s"
    by (intro reach_frame reach_event reach_init)
  have i: "0 < ALIEN_COUNT" "7 < ALIEN_COUNT"
    by (simp_all add: ALIEN_COUNT_def)
  have a: "a_active (aliens ?s ! 0)" "a_active (aliens ?s ! 7)"
    by code_simp+
  show ?thesis
    by (rule formation_coherence [OF r i a])
qed

section \<open>Runs and the winning game\<close>

lemma reachable_run: "reachable s \<Longrightarrow> reachable (run xs s)"
proof (induction xs arbitrary: s)
  case Nil
  then show ?case by simp
next
  case (Cons x xs)
  then show ?case
    by (cases x) (simp_all add: reach_event reach_frame)
qed

lemma winning_play_final: "run winning_play init = won_state"
  by code_simp

lemma winning_play_destroyed: "destroyed winning_play init 0 = 8"
  by code_simp

section \<open>Victory and defeat\<close>

lemma handle_event_keeps:
  assumes "\<not> (e = SDL_KEYDOWN SDLK_r \<and> gGameOver s)"
  shows "gLives (handle_event e s) = gLives s"
    and "gGameOver (handle_event e s) = gGameOver s"
    and "gScore (handle_event e s) = gScore s"
    and "aliens (handle_event e s) = aliens s"
  using assms
  by (induction e s rule: handle_event.induct)
     (simp_all add: restart_def fire_bullet_def split: option.split)

lemma allAliensDead_aliens:
  "aliens t = aliens s \<Longrightarrow> allAliensDead t = allAliensDead s"
  by (simp add: allAliensDead_def)

lemma lives_ok_init: "lives_ok init"
  by (simp add: lives_ok_def init_def PLAYER_LIVES_def)

lemma lives_ok_handle_event:
  assumes ok: "arrays_ok s" and inv: "lives_ok s"
  shows "lives_ok (handle_event e s)"
proof (cases "e = SDL_KEYDOWN SDLK_r \<and> gGameOver s")
  case True
  then show ?thesis
    using ok by (simp add: restart_def resetGame_init lives_ok_init)
next
  case False
  have "allAliensDead (handle_event e s) = allAliensDead s"
    by (rule allAliensDead_aliens) (rule handle_event_keeps(4) [OF False])
  then show ?thesis
    using inv by (simp add: lives_ok_def handle_event_keeps [OF False])
qed

lemma lives_ok_frame:
  assumes ok: "arrays_ok s" and inv: "lives_ok s"
  shows "lives_ok (frame s)"
proof (cases "gGameOver s")
  case True
  then show ?thesis using inv by (simp add: frame_over)
next
  case run: False
  let ?t = "after_collisions s"
  from inv run have pos: "0 < gLives s" and le: "gLives s \<le> PLAYER_LIVES"
    by (simp_all add: lives_ok_def)
  show ?thesis
  proof (cases "\<exists>i<ALIEN_COUNT. reached ?t i")
    case hit: True
    have fr: "frame s = check_victory (lose_life ?t)"
      using ok run hit by (rule frame_life_lost)
    show ?thesis
    proof (cases "gLives s - 1 \<le> 0")
      case True
      with pos have "gLives (frame s) = 0" by (simp add: fr)
      moreover from True have "gGameOver (frame s)" by (simp add: fr)
      ultimately show ?thesis by (simp add: lives_ok_def PLAYER_LIVES_def)
    next
      case False
      have "\<not> gGameOver (frame s)"
        using frame_wave_restart(3) [OF ok run hit False] .
      moreover have "gLives (frame s) = gLives s - 1" by (simp add: fr)
      ultimately show ?thesis
        using False le by (simp add: lives_ok_def)
    qed
  next
    case False
    then have "check_reached ?t = ?t" by (simp add: check_reached_miss)
    then have fr: "frame s = check_victory ?t"
      using run by (simp add: frame_running)
    have "allAliensDead (check_victory ?t) = allAliensDead ?t"
      by (rule allAliensDead_aliens) simp
    then show ?thesis
      using pos le run by (simp add: fr lives_ok_def)
  qed
qed

lemma reachable_lives_ok: "reachable s \<Longrightarrow> lives_ok s"
proof (induction rule: reachable.induct)
  case reach_init
  show ?case by (rule lives_ok_init)
next
  case (reach_event s e)
  then show ?case by (simp add: lives_ok_handle_event reachable_arrays_ok)
next
  case (reach_frame s)
  then show ?case by (simp add: lives_ok_frame reachable_arrays_ok)
qed

text \<open>
  Claim C3. In every state reachable from the initial state by events and frame updates
  in which the game is over, exactly one of the two characterisations holds: lives is 0,
  or all aliens are inactive and lives is positive. In the first case the state is
  shown as a defeat and not as a victory, in the second as a victory and not as a
  defeat; no reachable game-over state is both or neither.
\<close>

theorem win_lose_exclusive:
  assumes "reachable s" and "gGameOver s"
  shows "((gLives s = 0) \<noteq> (allAliensDead s \<and> gLives s > 0))
    \<and> (gLives s = 0 \<longrightarrow> defeat s \<and> \<not> victory s)
    \<and> (allAliensDead s \<and> gLives s > 0 \<longrightarrow> victory s \<and> \<not> defeat s)
    \<and> (victory s \<noteq> defeat s)"
  using reachable_lives_ok [OF assms(1)] assms(2)
  by (auto simp: lives_ok_def victory_def defeat_def)

text \<open>The winning game ends in a reachable state with all aliens inactive and 3 lives:
  a victory, not a defeat. The game without input ends in \<open>lost_state\<close> with 0 lives
  and all aliens active: a defeat, not a victory.\<close>

theorem win_lose_exclusive_witness:
  "victory (run winning_play init) \<and> \<not> defeat (run winning_play init)
   \<and> gLives (run winning_play init) = 3
   \<and> defeat lost_state \<and> \<not> victory lost_state \<and> gLives lost_state = 0"
proof -
  have r: "reachable (run winning_play init)"
    by (rule reachable_run [OF reach_init])
  have f: "gGameOver won_state" "allAliensDead won_state \<and> gLives won_state > 0"
    "gLives won_state = 3"
    by code_simp+
  have g: "gGameOver lost_state" "gLives lost_state = 0"
    by code_simp+
  have "victory (run winning_play init) \<and> \<not> defeat (run winning_play init)
   \<and> gLives (run winning_play init) = 3"
    using win_lose_exclusive [OF r] f unfolding winning_play_final by blast
  moreover have "defeat lost_state \<and> \<not> victory lost_state \<and> gLives lost_state = 0"
    using win_lose_exclusive [OF reachable_lost_state] g by blast
  ultimately show ?thesis by simp
qed

section \<open>Bullets, aliens and the score\<close>

lemma count_update_deactivate:
  "i < length xs \<Longrightarrow> P (xs ! i) \<Longrightarrow> \<not> P x \<Longrightarrow>
   Suc (length (filter P (xs[i := x]))) = length (filter P xs)"
proof (induction xs arbitrary: i)
  case Nil
  then show ?case by simp
next
  case (Cons a xs)
  then show ?case by (cases i) simp_all
qed

lemma count_same_flags:
  assumes "length ys = length xs" and "\<And>i. i < length xs \<Longrightarrow> P (ys ! i) = P (xs ! i)"
  shows "length (filter P ys) = length (filter P xs)"
proof -
  have "{i. i < length ys \<and> P (ys ! i)} = {i. i < length xs \<and> P (xs ! i)}"
    using assms by auto
  then show ?thesis
    by (simp add: length_filter_conv_card)
qed

lemma collide_bullet_hit:
  assumes "b_active (bullets s ! b)" and "i < ALIEN_COUNT"
    and "hits (bullets s ! b) (aliens s ! i)"
    and "\<forall>j<i. \<not> hits (bullets s ! b) (aliens s ! j)"
  shows "collide_bullet b s =
           s\<lparr> aliens := (aliens s)[i := (aliens s ! i)\<lparr> a_active := False \<rparr>],
              bullets := (bullets s)[b := (bullets s ! b)\<lparr> b_active := False \<rparr>],
              gScore := gScore s + 10 \<rparr>"
proof -
  have "first_index ALIEN_COUNT (\<lambda>i. hits (bullets s ! b) (aliens s ! i)) = Some i"
    using assms(2-4) by (simp add: first_index_Some)
  then show ?thesis
    using assms(1) by (simp add: collide_bullet_def)
qed

lemma collide_bullet_miss:
  assumes "\<not> b_active (bullets s ! b) \<or> (\<forall>i<ALIEN_COUNT. \<not> hits (bullets s ! b) (aliens s ! i))"
  shows "collide_bullet b s = s"
  using assms by (auto simp: collide_bullet_def first_index_Some split: option.split)

lemma collide_bullet_cases:
  obtains (miss) "collide_bullet b s = s"
  | (hit) i where "i < ALIEN_COUNT" and "a_active (aliens s ! i)"
      and "collide_bullet b s =
           s\<lparr> aliens := (aliens s)[i := (aliens s ! i)\<lparr> a_active := False \<rparr>],
              bullets := (bullets s)[b := (bullets s ! b)\<lparr> b_active := False \<rparr>],
              gScore := gScore s + 10 \<rparr>"
proof (cases "b_active (bullets s ! b)")
  case False
  then show ?thesis using miss by (simp add: collide_bullet_def)
next
  case True
  show ?thesis
  proof (cases "first_index ALIEN_COUNT (\<lambda>i. hits (bullets s ! b) (aliens s ! i))")
    case None
    then show ?thesis using miss True by (simp add: collide_bullet_def)
  next
    case (Some i)
    then have "i < ALIEN_COUNT" and "a_active (aliens s ! i)"
      by (simp_all add: first_index_Some hits_def)
    moreover have "collide_bullet b s =
           s\<lparr> aliens := (aliens s)[i := (aliens s ! i)\<lparr> a_active := False \<rparr>],
              bullets := (bullets s)[b := (bullets s ! b)\<lparr> b_active := False \<rparr>],
              gScore := gScore s + 10 \<rparr>"
      using True Some by (simp add: collide_bullet_def)
    ultimately show ?thesis by (rule hit)
  qed
qed

lemma collide_bullet_score_mono: "gScore s \<le> gScore (collide_bullet b s)"
  by (cases b s rule: collide_bullet_cases) simp_all

lemma collide_bullet_score_count:
  assumes "length (aliens s) = ALIEN_COUNT"
  shows "gScore (collide_bullet b s) + 10 * int (active_count (aliens (collide_bullet b s)))
           = gScore s + 10 * int (active_count (aliens s))"
proof (cases b s rule: collide_bullet_cases)
  case miss
  then show ?thesis by simp
next
  case (hit i)
  from hit(1) assms have "i < length (aliens s)" by simp
  then have "Suc (active_count ((aliens s)[i := (aliens s ! i)\<lparr> a_active := False \<rparr>]))
               = active_count (aliens s)"
    unfolding active_count_def using hit(2) by (intro count_update_deactivate) simp_all
  then show ?thesis
    by (simp add: hit(3) flip: \<open>Suc _ = _\<close>)
qed

lemma collide_score_mono: "gScore s \<le> gScore (collide s)"
  unfolding collide_def
proof (rule for_upto_preserves [where P = "\<lambda>t. gScore s \<le> gScore t"])
  fix i and t :: game assume "gScore s \<le> gScore t"
  with collide_bullet_score_mono [of t i] show "gScore s \<le> gScore (collide_bullet i t)"
    by simp
qed simp

lemma collide_score_count:
  assumes "length (aliens s) = ALIEN_COUNT"
  shows "gScore (collide s) + 10 * int (active_count (aliens (collide s)))
           = gScore s + 10 * int (active_count (aliens s))"
proof -
  let ?P = "\<lambda>t. length (aliens t) = ALIEN_COUNT
      \<and> gScore t + 10 * int (active_count (aliens t)) = gScore s + 10 * int (active_count (aliens s))"
  have "?P (for_upto MAX_BULLETS collide_bullet s)"
  proof (rule for_upto_preserves [where P = ?P])
    fix i and t :: game assume "?P t"
    then show "?P (collide_bullet i t)"
      using collide_bullet_score_count [of t i] by simp
  next
    show "?P s" using assms by simp
  qed
  then show ?thesis by (simp add: collide_def)
qed

lemma active_count_move_aliens:
  assumes "length (aliens s) = ALIEN_COUNT"
  shows "active_count (aliens (move_aliens s)) = active_count (aliens s)"
  unfolding active_count_def
  using assms by (intro count_same_flags) (simp_all add: move_aliens_active)

lemma check_reached_score [simp]: "gScore (check_reached s) = gScore s"
  by (simp add: check_reached_def split: option.split)

lemma frame_score_after_collisions:
  "\<not> gGameOver s \<Longrightarrow> gScore (frame s) = gScore (after_collisions s)"
  by (simp add: frame_running)

lemma frame_score_mono: "gScore s \<le> gScore (frame s)"
proof (cases "gGameOver s")
  case True
  then show ?thesis by (simp add: frame_over)
next
  case False
  have "gScore (move_aliens (move_ship_and_bullets s)) \<le> gScore (after_collisions s)"
    unfolding after_collisions_def by (rule collide_score_mono)
  then show ?thesis
    using False by (simp add: frame_score_after_collisions)
qed

lemma frame_score_destroyed:
  assumes ok: "arrays_ok s"
  shows "gScore (frame s) = gScore s + 10 * int (destroyed_in_frame s)"
proof (cases "gGameOver s")
  case True
  then show ?thesis by (simp add: frame_over destroyed_in_frame_def)
next
  case False
  let ?m = "move_aliens (move_ship_and_bullets s)"
  have len: "length (aliens s) = ALIEN_COUNT" using ok by (simp add: arrays_ok_def)
  then have lm: "length (aliens ?m) = ALIEN_COUNT" by simp
  have cm: "active_count (aliens ?m) = active_count (aliens s)"
    using active_count_move_aliens [of "move_ship_and_bullets s"] len by simp
  have eq: "gScore (after_collisions s) + 10 * int (active_count (aliens (after_collisions s)))
          = gScore s + 10 * int (active_count (aliens s))"
    using collide_score_count [OF lm] by (simp add: after_collisions_def cm)
  have "gScore s \<le> gScore (after_collisions s)"
    using collide_score_mono [of ?m] by (simp add: after_collisions_def)
  with eq have "active_count (aliens (after_collisions s)) \<le> active_count (aliens s)"
    by simp
  with eq have "gScore (after_collisions s)
      = gScore s + 10 * int (active_count (aliens s) - active_count (aliens (after_collisions s)))"
    by (simp add: of_nat_diff)
  then show ?thesis
    using False by (simp add: frame_score_after_collisions destroyed_in_frame_def)
qed

lemma arrays_ok_step:
  "arrays_ok s \<Longrightarrow> arrays_ok (handle_event e s)"
  "arrays_ok s \<Longrightarrow> arrays_ok (frame s)"
  by (simp_all add: arrays_ok_def)

lemma run_score_destroyed:
  assumes "arrays_ok s" and "gScore s = 10 * int n"
  shows "gScore (run xs s) = 10 * int (destroyed xs s n)"
  using assms
proof (induction xs arbitrary: s n)
  case Nil
  then show ?case by simp
next
  case (Cons x xs)
  show ?case
  proof (cases x)
    case (Input e)
    show ?thesis
    proof (cases "e = SDL_KEYDOWN SDLK_r \<and> gGameOver s")
      case True
      then have "handle_event e s = init"
        using Cons.prems(1) by (simp add: restart_def resetGame_init)
      moreover have "gScore init = 10 * int 0" by (simp add: init_def)
      ultimately have "gScore (run xs (handle_event e s)) = 10 * int (destroyed xs (handle_event e s) 0)"
        using Cons.IH [of init 0] arrays_ok_init by simp
      then show ?thesis using Input True by simp
    next
      case False
      have "gScore (handle_event e s) = 10 * int n"
        using Cons.prems(2) by (simp add: handle_event_keeps(3) [OF False])
      then have "gScore (run xs (handle_event e s)) = 10 * int (destroyed xs (handle_event e s) n)"
        using Cons.IH [of "handle_event e s" n] arrays_ok_step(1) [OF Cons.prems(1)] by simp
      then show ?thesis using Input False by auto
    qed
  next
    case Tick
    have "gScore (frame s) = 10 * int (n + destroyed_in_frame s)"
      using frame_score_destroyed [OF Cons.prems(1)] Cons.prems(2) by simp
    then have "gScore (run xs (frame s)) = 10 * int (destroyed xs (frame s) (n + destroyed_in_frame s))"
      using Cons.IH [of "frame s" "n + destroyed_in_frame s"] arrays_ok_step(2) [OF Cons.prems(1)]
      by simp
    then show ?thesis using Tick by simp
  qed
qed

lemma collide_unrolled:
  "collide s = collide_bullet 4 (collide_bullet 3 (collide_bullet 2
                 (collide_bullet 1 (collide_bullet 0 s))))"
  by (simp add: collide_def MAX_BULLETS_def eval_nat_numeral)

lemma active_count_all:
  assumes "\<And>i. i < length as \<Longrightarrow> a_active (as ! i)"
  shows "active_count as = length as"
proof -
  have "\<forall>a\<in>set as. a_active a"
    using assms by (auto simp: in_set_conv_nth)
  then show ?thesis
    by (simp add: active_count_def)
qed

lemma active_count_none:
  assumes "length (aliens s) = ALIEN_COUNT" and "allAliensDead s"
  shows "active_count (aliens s) = 0"
proof -
  have "\<forall>a\<in>set (aliens s). \<not> a_active a"
    using assms by (auto simp: allAliensDead_iff in_set_conv_nth)
  then show ?thesis by (simp add: active_count_def)
qed

lemma first_wave_score_frame:
  assumes ok: "arrays_ok s" and lv: "lives_ok s"
    and q: "gLives s = 3 \<longrightarrow> gScore s + 10 * int (active_count (aliens s)) = 80"
    and three: "gLives (frame s) = 3"
  shows "gScore (frame s) + 10 * int (active_count (aliens (frame s))) = 80"
proof (cases "gGameOver s")
  case True
  then show ?thesis using q three by (simp add: frame_over)
next
  case False
  let ?m = "move_aliens (move_ship_and_bullets s)" and ?t = "after_collisions s"
  have len: "length (aliens s) = ALIEN_COUNT" using ok by (simp add: arrays_ok_def)
  have le: "gLives s \<le> 3" using lv by (simp add: lives_ok_def PLAYER_LIVES_def)
  have miss: "\<not> (\<exists>i<ALIEN_COUNT. reached ?t i)"
  proof
    assume "\<exists>i<ALIEN_COUNT. reached ?t i"
    then have "frame s = check_victory (lose_life ?t)"
      using ok False by (intro frame_life_lost) simp_all
    then have "gLives (frame s) = gLives s - 1" by simp
    with three le show False by simp
  qed
  then have "check_reached ?t = ?t" by (simp add: check_reached_miss)
  then have fr: "frame s = check_victory ?t"
    using False by (simp add: frame_running)
  then have "gLives s = 3" using three by simp
  with q have "gScore s + 10 * int (active_count (aliens s)) = 80" by simp
  moreover have "gScore ?t + 10 * int (active_count (aliens ?t))
      = gScore s + 10 * int (active_count (aliens s))"
    using collide_score_count [of ?m] active_count_move_aliens [of "move_ship_and_bullets s"] len
    by (simp add: after_collisions_def)
  ultimately show ?thesis by (simp add: fr)
qed

lemma first_wave_score:
  "reachable s \<Longrightarrow> gLives s = 3 \<longrightarrow> gScore s + 10 * int (active_count (aliens s)) = 80"
proof (induction rule: reachable.induct)
  case reach_init
  have "active_count (aliens init) = 8"
    using active_count_all [of "aliens init"] by (simp add: init_def ALIEN_COUNT_def)
  then show ?case by (simp add: init_def)
next
  case (reach_event s e)
  show ?case
  proof (cases "e = SDL_KEYDOWN SDLK_r \<and> gGameOver s")
    case True
    have "active_count (aliens init) = 8"
      using active_count_all [of "aliens init"] by (simp add: init_def ALIEN_COUNT_def)
    moreover have "handle_event e s = init"
      using True reachable_arrays_ok [OF reach_event.hyps]
      by (simp add: restart_def resetGame_init)
    ultimately show ?thesis by (simp add: init_def)
  next
    case False
    then show ?thesis
      using reach_event.IH by (simp add: handle_event_keeps [OF False])
  qed
next
  case (reach_frame s)
  show ?case
    using first_wave_score_frame [OF reachable_arrays_ok [OF reach_frame.hyps]
        reachable_lives_ok [OF reach_frame.hyps] reach_frame.IH]
    by blast
qed

lemma first_wave_victory:
  assumes "reachable s" and "gLives s = 3" and "allAliensDead s"
  shows "gScore s = 80"
proof -
  have "length (aliens s) = ALIEN_COUNT"
    using reachable_arrays_ok [OF assms(1)] by (simp add: arrays_ok_def)
  then have "active_count (aliens s) = 0"
    using assms(3) by (rule active_count_none)
  with first_wave_score [OF assms(1)] assms(2) show ?thesis by simp
qed

text \<open>
  Claim C4. The collision pass of a frame handles the bullets 0 to 4 in turn. An active
  bullet is tested against the active aliens in increasing index order: for the first
  active alien whose rectangle overlaps it, the bullet and that alien are deactivated,
  the score grows by exactly 10 and no other alien is changed for that bullet (so the
  number of active aliens drops by one, and among several overlapping aliens the one of
  lowest index is taken); an inactive bullet, or one that overlaps no active alien,
  changes nothing. A frame update never decreases the score: it adds 10 for every alien
  destroyed in the frame. In a run from the fresh game the score is 10 times the number
  of aliens destroyed, so with 8 aliens destroyed the score is 80; and as long as no life
  is lost the score is 10 for every inactive alien, so a fresh game that is won with all
  8 aliens destroyed and 3 lives ends with score 80.
\<close>

theorem bullet_hits_first_alien:
  assumes ok: "arrays_ok s"
  shows "collide s = collide_bullet 4 (collide_bullet 3 (collide_bullet 2
                 (collide_bullet 1 (collide_bullet 0 s))))
    \<and> (b < MAX_BULLETS \<and> b_active (bullets s ! b) \<and> i < ALIEN_COUNT
         \<and> hits (bullets s ! b) (aliens s ! i)
         \<and> (\<forall>j<i. \<not> hits (bullets s ! b) (aliens s ! j)) \<longrightarrow>
         collide_bullet b s =
           s\<lparr> aliens := (aliens s)[i := (aliens s ! i)\<lparr> a_active := False \<rparr>],
              bullets := (bullets s)[b := (bullets s ! b)\<lparr> b_active := False \<rparr>],
              gScore := gScore s + 10 \<rparr>
         \<and> \<not> a_active (aliens (collide_bullet b s) ! i)
         \<and> \<not> b_active (bullets (collide_bullet b s) ! b)
         \<and> gScore (collide_bullet b s) = gScore s + 10
         \<and> (\<forall>k<ALIEN_COUNT. k \<noteq> i \<longrightarrow> aliens (collide_bullet b s) ! k = aliens s ! k)
         \<and> Suc (active_count (aliens (collide_bullet b s))) = active_count (aliens s))
    \<and> (\<not> b_active (bullets s ! b) \<or> (\<forall>i<ALIEN_COUNT. \<not> hits (bullets s ! b) (aliens s ! i))
         \<longrightarrow> collide_bullet b s = s)
    \<and> gScore s \<le> gScore (frame s)
    \<and> gScore (frame s) = gScore s + 10 * int (destroyed_in_frame s)
    \<and> gScore (run xs init) = 10 * int (destroyed xs init 0)
    \<and> (destroyed xs init 0 = 8 \<longrightarrow> gScore (run xs init) = 80)
    \<and> (reachable t \<and> gLives t = 3 \<longrightarrow>
         gScore t + 10 * int (active_count (aliens t)) = 80
         \<and> (allAliensDead t \<longrightarrow> gScore t = 80))"
proof -
  have c1: "collide s = collide_bullet 4 (collide_bullet 3 (collide_bullet 2
                 (collide_bullet 1 (collide_bullet 0 s))))"
    by (rule collide_unrolled)
  have c2: "b < MAX_BULLETS \<and> b_active (bullets s ! b) \<and> i < ALIEN_COUNT
         \<and> hits (bullets s ! b) (aliens s ! i)
         \<and> (\<forall>j<i. \<not> hits (bullets s ! b) (aliens s ! j)) \<longrightarrow>
         collide_bullet b s =
           s\<lparr> aliens := (aliens s)[i := (aliens s ! i)\<lparr> a_active := False \<rparr>],
              bullets := (bullets s)[b := (bullets s ! b)\<lparr> b_active := False \<rparr>],
              gScore := gScore s + 10 \<rparr>
         \<and> \<not> a_active (aliens (collide_bullet b s) ! i)
         \<and> \<not> b_active (bullets (collide_bullet b s) ! b)
         \<and> gScore (collide_bullet b s) = gScore s + 10
         \<and> (\<forall>k<ALIEN_COUNT. k \<noteq> i \<longrightarrow> aliens (collide_bullet b s) ! k = aliens s ! k)
         \<and> Suc (active_count (aliens (collide_bullet b s))) = active_count (aliens s)"
  proof
    assume h: "b < MAX_BULLETS \<and> b_active (bullets s ! b) \<and> i < ALIEN_COUNT
         \<and> hits (bullets s ! b) (aliens s ! i)
         \<and> (\<forall>j<i. \<not> hits (bullets s ! b) (aliens s ! j))"
    then have eq: "collide_bullet b s =
           s\<lparr> aliens := (aliens s)[i := (aliens s ! i)\<lparr> a_active := False \<rparr>],
              bullets := (bullets s)[b := (bullets s ! b)\<lparr> b_active := False \<rparr>],
              gScore := gScore s + 10 \<rparr>"
      by (intro collide_bullet_hit) simp_all
    from h ok have il: "i < length (aliens s)" and bl: "b < length (bullets s)"
      by (simp_all add: arrays_ok_def)
    from h have act: "a_active (aliens s ! i)" by (simp add: hits_def)
    have "\<not> a_active (aliens (collide_bullet b s) ! i)"
      using il by (simp add: eq)
    moreover have "\<not> b_active (bullets (collide_bullet b s) ! b)"
      using bl by (simp add: eq)
    moreover have "gScore (collide_bullet b s) = gScore s + 10"
      by (simp add: eq)
    moreover have "\<forall>k<ALIEN_COUNT. k \<noteq> i \<longrightarrow> aliens (collide_bullet b s) ! k = aliens s ! k"
      by (simp add: eq)
    moreover have "Suc (active_count (aliens (collide_bullet b s))) = active_count (aliens s)"
      unfolding active_count_def using il act
      by (simp add: eq count_update_deactivate)
    ultimately show "collide_bullet b s =
           s\<lparr> aliens := (aliens s)[i := (aliens s ! i)\<lparr> a_active := False \<rparr>],
              bullets := (bullets s)[b := (bullets s ! b)\<lparr> b_active := False \<rparr>],
              gScore := gScore s + 10 \<rparr>
         \<and> \<not> a_active (aliens (collide_bullet b s) ! i)
         \<and> \<not> b_active (bullets (collide_bullet b s) ! b)
         \<and> gScore (collide_bullet b s) = gScore s + 10
         \<and> (\<forall>k<ALIEN_COUNT. k \<noteq> i \<longrightarrow> aliens (collide_bullet b s) ! k = aliens s ! k)
         \<and> Suc (active_count (aliens (collide_bullet b s))) = active_count (aliens s)"
      using eq by blast
  qed
  have c3: "\<not> b_active (bullets s ! b) \<or> (\<forall>i<ALIEN_COUNT. \<not> hits (bullets s ! b) (aliens s ! i))
         \<longrightarrow> collide_bullet b s = s"
    using collide_bullet_miss [of s b] by blast
  have c4: "gScore s \<le> gScore (frame s)"
    by (rule frame_score_mono)
  have c5: "gScore (frame s) = gScore s + 10 * int (destroyed_in_frame s)"
    using ok by (rule frame_score_destroyed)
  have c6: "gScore (run xs init) = 10 * int (destroyed xs init 0)"
    by (rule run_score_destroyed [OF arrays_ok_init]) (simp add: init_def)
  have c7: "destroyed xs init 0 = 8 \<longrightarrow> gScore (run xs init) = 80"
    by (simp add: c6)
  have c8: "reachable t \<and> gLives t = 3 \<longrightarrow>
         gScore t + 10 * int (active_count (aliens t)) = 80
         \<and> (allAliensDead t \<longrightarrow> gScore t = 80)"
    using first_wave_score [of t] first_wave_victory [of t] by blast
  show ?thesis
    by (rule conjI [OF c1 conjI [OF c2 conjI [OF c3 conjI [OF c4 conjI [OF c5
          conjI [OF c6 conjI [OF c7 c8]]]]]]])
qed

text \<open>Bullet 0 of \<open>tie_state\<close> overlaps aliens 0 and 1: alien 0 is destroyed, alien 1
  stays, the score is 10; the inactive bullet 1 changes nothing. The winning game
  destroys 8 aliens and ends, with 3 lives, in \<open>won_state\<close> with score 80.\<close>

theorem bullet_hits_first_alien_witness:
  "\<not> a_active (aliens (collide_bullet 0 tie_state) ! 0)
   \<and> a_active (aliens (collide_bullet 0 tie_state) ! 1)
   \<and> \<not> b_active (bullets (collide_bullet 0 tie_state) ! 0)
   \<and> gScore (collide_bullet 0 tie_state) = 10
   \<and> collide_bullet 1 tie_state = tie_state
   \<and> gScore (run winning_play init) = 80
   \<and> gScore won_state = 80"
proof -
  have ok: "arrays_ok tie_state" by code_simp
  have h: "0 < MAX_BULLETS \<and> b_active (bullets tie_state ! 0) \<and> 0 < ALIEN_COUNT
         \<and> hits (bullets tie_state ! 0) (aliens tie_state ! 0)
         \<and> (\<forall>j<0. \<not> hits (bullets tie_state ! 0) (aliens tie_state ! j))"
    "hits (bullets tie_state ! 0) (aliens tie_state ! 1)"
    "1 < ALIEN_COUNT" "a_active (aliens tie_state ! 1)" "gScore tie_state = 0"
    by code_simp+
  have m: "\<not> b_active (bullets tie_state ! 1)" by code_simp
  from bullet_hits_first_alien [OF ok, of 0 0] h(1)
  have a: "\<not> a_active (aliens (collide_bullet 0 tie_state) ! 0)
    \<and> \<not> b_active (bullets (collide_bullet 0 tie_state) ! 0)
    \<and> gScore (collide_bullet 0 tie_state) = gScore tie_state + 10
    \<and> (\<forall>k<ALIEN_COUNT. k \<noteq> 0 \<longrightarrow>
          aliens (collide_bullet 0 tie_state) ! k = aliens tie_state ! k)"
    by blast
  then have "aliens (collide_bullet 0 tie_state) ! 1 = aliens tie_state ! 1"
    using h(3) by simp
  with a h(4,5) have 1: "\<not> a_active (aliens (collide_bullet 0 tie_state) ! 0)
    \<and> a_active (aliens (collide_bullet 0 tie_state) ! 1)
    \<and> \<not> b_active (bullets (collide_bullet 0 tie_state) ! 0)
    \<and> gScore (collide_bullet 0 tie_state) = 10"
    by simp
  have 2: "collide_bullet 1 tie_state = tie_state"
    using bullet_hits_first_alien [OF ok, of 1] m by blast
  have 3: "gScore (run winning_play init) = 80"
    using bullet_hits_first_alien [OF arrays_ok_init, of 0 0 winning_play] winning_play_destroyed
    by blast
  have "reachable won_state"
    using reachable_run [OF reach_init, of winning_play] by (simp add: winning_play_final)
  moreover have "gLives won_state = 3" "allAliensDead won_state"
    by code_simp+
  ultimately have 4: "gScore won_state = 80"
    using bullet_hits_first_alien [OF ok, of 0 0 "[]" won_state] by blast
  from 1 2 3 4 show ?thesis by simp
qed

section \<open>The values stay in range\<close>

text \<open>
  Along every run from the initial state the fields stay within small bounds, so the
  sums and differences that the code forms from them are far inside the range of a
  32-bit \<^verbatim>\<open>int\<close>: on the states of a run the mathematical integers and the machine
  integers agree.
\<close>

lemma active_count_le: "active_count as \<le> length as"
  by (simp add: active_count_def)

lemma ranges_ok_init: "ranges_ok init"
proof -
  have "active_count (aliens init) = 8"
    using active_count_all [of "aliens init"] by (simp add: init_def ALIEN_COUNT_def)
  then have "fields_ok init"
    by (simp add: fields_ok_def arrays_ok_init)
       (simp add: init_def player_ok_def bullet_ok_def alien_ok_def int_consts
          signed_divide_int_def ALIEN_COUNT_def)
  moreover have "above_player init"
    by (simp add: above_player_def init_def int_consts)
  ultimately show ?thesis by (simp add: ranges_ok_def)
qed

lemma fields_ok_player:
  assumes "fields_ok s" and "player_ok p"
  shows "fields_ok (s\<lparr> player := p \<rparr>)"
  using assms by (simp add: fields_ok_def arrays_ok_def)

lemma fields_ok_fire_bullet:
  assumes ok: "fields_ok s"
  shows "fields_ok (fire_bullet s)"
proof (cases "gGameOver s")
  case True
  then show ?thesis using ok by (simp add: fire_bullet_def)
next
  case False
  show ?thesis
  proof (cases "first_index MAX_BULLETS (\<lambda>i. \<not> b_active (bullets s ! i))")
    case None
    then show ?thesis using ok False by (simp add: fire_bullet_def)
  next
    case (Some k)
    then have k: "k < MAX_BULLETS" by (simp add: first_index_Some)
    let ?b = "(bullets s ! k)\<lparr> b_active := True,
        b_x := p_x (player s) + (p_w (player s) sdiv 2) - (b_w (bullets s ! k) sdiv 2),
        b_y := p_y (player s) - b_h (bullets s ! k) \<rparr>"
    have fb: "fire_bullet s = s\<lparr> bullets := (bullets s)[k := ?b] \<rparr>"
      using False Some by (simp add: fire_bullet_def)
    from ok k have "bullet_ok (bullets s ! k)" and "player_ok (player s)"
      by (simp_all add: fields_ok_def)
    then have new: "bullet_ok ?b"
      by (simp add: bullet_ok_def player_ok_def signed_divide_int_def)
    have "\<forall>i<MAX_BULLETS. bullet_ok ((bullets s)[k := ?b] ! i)"
    proof (intro allI impI)
      fix i assume "i < MAX_BULLETS"
      with ok have "bullet_ok (bullets s ! i)" and "i < length (bullets s)"
        by (simp_all add: fields_ok_def arrays_ok_def)
      with new show "bullet_ok ((bullets s)[k := ?b] ! i)"
        by (cases "i = k") simp_all
    qed
    then show ?thesis
      using ok by (simp add: fb fields_ok_def arrays_ok_def)
  qed
qed

lemma ranges_ok_handle_event:
  assumes inv: "ranges_ok s"
  shows "ranges_ok (handle_event e s)"
proof (cases "e = SDL_KEYDOWN SDLK_r \<and> gGameOver s")
  case True
  from inv have "arrays_ok s" by (simp add: ranges_ok_def fields_ok_def)
  with True show ?thesis
    by (simp add: restart_def resetGame_init ranges_ok_init)
next
  case False
  from inv have f: "fields_ok s" and p: "player_ok (player s)"
    by (simp_all add: ranges_ok_def fields_ok_def)
  have "fields_ok (handle_event e s)"
  proof (cases e)
    case (SDL_KEYDOWN k)
    with False f p show ?thesis
      by (cases k)
         (simp_all add: fields_ok_player fields_ok_fire_bullet player_ok_def restart_def
            PLAYER_SPEED_def)
  next
    case (SDL_KEYUP k)
    with f p show ?thesis
      by (cases k) (simp_all add: fields_ok_player player_ok_def)
  qed (use f in simp_all)
  moreover have "above_player (handle_event e s) = above_player s"
    by (simp add: above_player_def handle_event_keeps(4) [OF False])
  ultimately show ?thesis
    using inv by (simp add: ranges_ok_def handle_event_keeps(2) [OF False])
qed

lemma player_ok_move_player: "player_ok p \<Longrightarrow> player_ok (move_player p)"
  by (auto simp: player_ok_def move_player_def Let_def WINDOW_WIDTH_def)

lemma bullet_ok_update_bullet: "bullet_ok b \<Longrightarrow> bullet_ok (update_bullet i b)"
  by (auto simp: bullet_ok_def update_bullet_def Let_def BULLET_SPEED_def)

lemma fields_ok_move_ship:
  assumes "fields_ok s"
  shows "fields_ok (move_ship_and_bullets s)"
proof -
  have "\<forall>i<MAX_BULLETS. bullet_ok (for_each MAX_BULLETS update_bullet (bullets s) ! i)"
    using assms
    by (simp add: fields_ok_def arrays_ok_def nth_for_each bullet_ok_update_bullet)
  then show ?thesis
    using assms
    by (simp add: fields_ok_def arrays_ok_def move_ship_and_bullets_def player_ok_move_player)
qed

lemma alien_ok_moved:
  assumes f: "fields_ok t" and a: "above_player t" and i: "i < ALIEN_COUNT"
  shows "alien_ok (aliens (move_aliens t) ! i)"
proof -
  from f have len: "length (aliens t) = ALIEN_COUNT"
    and ok: "alien_ok (aliens t ! i)"
    and d: "gAlienMoveDir t = 1 \<or> gAlienMoveDir t = - 1"
    using i by (simp_all add: fields_ok_def arrays_ok_def)
  show ?thesis
  proof (cases "needDescend t")
    case True
    have "a_active (aliens t ! i) \<longrightarrow> a_y (aliens t ! i) < 376"
      using a i by (simp add: above_player_def)
    then show ?thesis
      using ok True
      by (auto simp: move_aliens_nth [OF len i] descend_alien_def alien_ok_def ALIEN_DESCENT_def)
  next
    case False
    then have "a_active (aliens t ! i) \<longrightarrow>
        0 \<le> a_x (aliens t ! i) + ALIEN_SPEED * gAlienMoveDir t
        \<and> a_x (aliens t ! i) + ALIEN_SPEED * gAlienMoveDir t + a_w (aliens t ! i) \<le> WINDOW_WIDTH"
      using i unfolding needDescend_iff by auto
    then show ?thesis
      using ok False
      by (auto simp: move_aliens_nth [OF len i] shift_alien_def alien_ok_def int_consts)
  qed
qed

lemma fields_ok_move_aliens:
  assumes f: "fields_ok t" and a: "above_player t"
  shows "fields_ok (move_aliens t)"
proof -
  from f have len: "length (aliens t) = ALIEN_COUNT"
    by (simp add: fields_ok_def arrays_ok_def)
  have "gAlienMoveDir (move_aliens t) = 1 \<or> gAlienMoveDir (move_aliens t) = - 1"
    using f by (auto simp: move_aliens_dir fields_ok_def)
  moreover have "\<forall>i<ALIEN_COUNT. alien_ok (aliens (move_aliens t) ! i)"
    using alien_ok_moved [OF f a] by simp
  ultimately show ?thesis
    using f by (simp add: fields_ok_def arrays_ok_def active_count_move_aliens [OF len])
qed

lemma fields_ok_collide_bullet:
  assumes f: "fields_ok t"
  shows "fields_ok (collide_bullet b t)"
proof (cases b t rule: collide_bullet_cases)
  case miss
  then show ?thesis using f by simp
next
  case (hit k)
  from f have len: "length (aliens t) = ALIEN_COUNT" "length (bullets t) = MAX_BULLETS"
    by (simp_all add: fields_ok_def arrays_ok_def)
  have sc: "gScore (collide_bullet b t) + 10 * int (active_count (aliens (collide_bullet b t)))
      = gScore t + 10 * int (active_count (aliens t))"
    by (rule collide_bullet_score_count [OF len(1)])
  have al: "\<forall>i<ALIEN_COUNT. alien_ok (aliens (collide_bullet b t) ! i)"
  proof (intro allI impI)
    fix i assume "i < ALIEN_COUNT"
    with f len have "alien_ok (aliens t ! i)" and "i < length (aliens t)"
      by (simp_all add: fields_ok_def)
    then show "alien_ok (aliens (collide_bullet b t) ! i)"
      by (cases "i = k") (simp_all add: hit(3) alien_ok_def)
  qed
  have bl: "\<forall>i<MAX_BULLETS. bullet_ok (bullets (collide_bullet b t) ! i)"
  proof (intro allI impI)
    fix i assume "i < MAX_BULLETS"
    with f len have "bullet_ok (bullets t ! i)" and "i < length (bullets t)"
      by (simp_all add: fields_ok_def)
    then show "bullet_ok (bullets (collide_bullet b t) ! i)"
      by (cases "i = b") (simp_all add: hit(3) bullet_ok_def)
  qed
  have "0 \<le> gScore (collide_bullet b t)"
    using f collide_bullet_score_mono [of t b] by (simp add: fields_ok_def)
  with sc al bl show ?thesis
    using f by (simp add: fields_ok_def arrays_ok_def)
qed

lemma fields_ok_collide: "fields_ok t \<Longrightarrow> fields_ok (collide t)"
  unfolding collide_def
  by (rule for_upto_preserves [where P = fields_ok]) (simp_all add: fields_ok_collide_bullet)

lemma fields_ok_after_collisions:
  assumes "ranges_ok s" and "\<not> gGameOver s"
  shows "fields_ok (after_collisions s)"
proof -
  from assms have f: "fields_ok s" and a: "above_player s"
    by (simp_all add: ranges_ok_def)
  have "fields_ok (move_ship_and_bullets s)"
    using f by (rule fields_ok_move_ship)
  moreover have "above_player (move_ship_and_bullets s)"
    using a by (simp add: above_player_def)
  ultimately have "fields_ok (move_aliens (move_ship_and_bullets s))"
    by (rule fields_ok_move_aliens)
  then show ?thesis
    unfolding after_collisions_def by (rule fields_ok_collide)
qed

lemma ranges_ok_check_victory: "ranges_ok u \<Longrightarrow> ranges_ok (check_victory u)"
  by (auto simp: check_victory_def ranges_ok_def fields_ok_def arrays_ok_def)

lemma ranges_ok_lose_life:
  assumes f: "fields_ok t" and run: "\<not> gGameOver t"
  shows "ranges_ok (lose_life t)"
proof (cases "gLives t - 1 \<le> 0")
  case True
  then have "lose_life t = t\<lparr> gLives := gLives t - 1, gGameOver := True \<rparr>"
    by (simp add: lose_life_def Let_def)
  then show ?thesis
    using f run by (simp add: ranges_ok_def fields_ok_def arrays_ok_def)
next
  case False
  from f have len: "length (aliens t) = ALIEN_COUNT" "length (bullets t) = MAX_BULLETS"
    by (simp_all add: fields_ok_def arrays_ok_def)
  have al: "aliens (lose_life t) ! i = wave_alien i (aliens t ! i)" if "i < ALIEN_COUNT" for i
    using that by (rule lose_life_wave_alien [OF False len(1)])
  have bl: "bullets (lose_life t) ! i = wave_bullet i (bullets t ! i)" if "i < MAX_BULLETS" for i
    using that by (rule lose_life_wave_bullet [OF False len(2)])
  have "active_count (aliens (lose_life t)) = length (aliens (lose_life t))"
    by (rule active_count_all) (simp add: al len)
  then have cnt: "active_count (aliens (lose_life t)) = 8"
    by (simp add: len ALIEN_COUNT_def)
  have a_ok: "\<forall>i<ALIEN_COUNT. alien_ok (aliens (lose_life t) ! i)"
  proof (intro allI impI)
    fix i assume i: "i < ALIEN_COUNT"
    with f have "alien_ok (aliens t ! i)" by (simp add: fields_ok_def)
    then show "alien_ok (aliens (lose_life t) ! i)"
      using i by (simp add: al alien_ok_def ALIEN_COUNT_def)
  qed
  have b_ok: "\<forall>i<MAX_BULLETS. bullet_ok (bullets (lose_life t) ! i)"
  proof (intro allI impI)
    fix i assume i: "i < MAX_BULLETS"
    with f have "bullet_ok (bullets t ! i)" by (simp add: fields_ok_def)
    then show "bullet_ok (bullets (lose_life t) ! i)"
      using i by (simp add: bl bullet_ok_def wave_bullet_def)
  qed
  have "fields_ok (lose_life t)"
    using f False cnt a_ok b_ok by (simp add: fields_ok_def arrays_ok_def)
  moreover have "above_player (lose_life t)"
    by (simp add: above_player_def al)
  ultimately show ?thesis by (simp add: ranges_ok_def)
qed

lemma ranges_ok_check_reached:
  assumes f: "fields_ok t" and run: "\<not> gGameOver t"
  shows "ranges_ok (check_reached t)"
proof (cases "\<exists>i<ALIEN_COUNT. reached t i")
  case True
  then show ?thesis
    using f run by (simp add: check_reached_hit ranges_ok_lose_life)
next
  case False
  have "above_player t"
    unfolding above_player_def
  proof (intro allI impI)
    fix i assume i: "i < ALIEN_COUNT" and act: "a_active (aliens t ! i)"
    from f i have "alien_ok (aliens t ! i)" and "player_ok (player t)"
      by (simp_all add: fields_ok_def)
    moreover from False i have "\<not> reached t i" by simp
    ultimately show "a_y (aliens t ! i) < 376"
      using act by (simp add: reached_def alien_ok_def player_ok_def)
  qed
  then show ?thesis
    using f False by (simp add: check_reached_miss ranges_ok_def)
qed

lemma ranges_ok_frame:
  assumes inv: "ranges_ok s"
  shows "ranges_ok (frame s)"
proof (cases "gGameOver s")
  case True
  then show ?thesis using inv by (simp add: frame_over)
next
  case False
  have "fields_ok (after_collisions s)"
    using inv False by (rule fields_ok_after_collisions)
  then have "ranges_ok (check_reached (after_collisions s))"
    using False by (intro ranges_ok_check_reached) simp_all
  then show ?thesis
    using False by (simp add: frame_running ranges_ok_check_victory)
qed

lemma reachable_ranges_ok: "reachable s \<Longrightarrow> ranges_ok s"
  by (induction rule: reachable.induct)
     (simp_all add: ranges_ok_init ranges_ok_handle_event ranges_ok_frame)

theorem run_stays_in_range:
  assumes "reachable s"
  shows "0 \<le> gLives s \<and> gLives s \<le> 3 \<and> 0 \<le> gScore s \<and> gScore s \<le> 320
    \<and> (gAlienMoveDir s = 1 \<or> gAlienMoveDir s = - 1)
    \<and> player_ok (player s)
    \<and> (\<forall>i<MAX_BULLETS. bullet_ok (bullets s ! i))
    \<and> (\<forall>i<ALIEN_COUNT. alien_ok (aliens s ! i))"
proof -
  from assms have f: "fields_ok s"
    using reachable_ranges_ok by (simp add: ranges_ok_def)
  then have "gScore s + 10 * int (active_count (aliens s)) \<le> 80 * (4 - gLives s)"
    and "0 \<le> gLives s"
    by (simp_all add: fields_ok_def)
  then have "gScore s \<le> 320" by simp
  with f show ?thesis by (simp add: fields_ok_def)
qed

text \<open>The game without input ends within these bounds.\<close>

theorem run_stays_in_range_witness:
  "gScore lost_state \<le> 320 \<and> gLives lost_state \<le> 3 \<and> player_ok (player lost_state)"
  using run_stays_in_range [OF reachable_lost_state] by simp

text \<open>In particular every collision test of a run is made on values whose sums fit: in
  each round of the collision loops the 32-bit function and the test on the
  mathematical integers give the same answer.\<close>

lemma hits_exact_in_range:
  assumes "bullet_ok b" and "alien_ok a"
  shows "rect_collide_int32 (b_x b) (b_y b) (b_w b) (b_h b) (a_x a) (a_y a) (a_w a) (a_h a)
         = rect_collide (b_x b) (b_y b) (b_w b) (b_h b) (a_x a) (a_y a) (a_w a) (a_h a)"
  using assms
  by (intro rect_collide_int32_exact) (simp_all add: bullet_ok_def alien_ok_def int32_def)

lemma collision_pass_in_range:
  assumes "reachable s" and "\<not> gGameOver s"
  shows "fields_ok (for_upto n collide_bullet (move_aliens (move_ship_and_bullets s)))"
proof -
  from assms have r: "ranges_ok s" by (simp add: reachable_ranges_ok)
  then have f: "fields_ok s" and a: "above_player s"
    using assms(2) by (simp_all add: ranges_ok_def)
  have "fields_ok (move_ship_and_bullets s)"
    using f by (rule fields_ok_move_ship)
  moreover have "above_player (move_ship_and_bullets s)"
    using a by (simp add: above_player_def)
  ultimately have "fields_ok (move_aliens (move_ship_and_bullets s))"
    by (rule fields_ok_move_aliens)
  then show ?thesis
    by (rule for_upto_preserves [where P = fields_ok, rotated]) (rule fields_ok_collide_bullet)
qed

lemma collision_tests_exact:
  assumes "reachable s" and "\<not> gGameOver s" and "b < MAX_BULLETS" and "i < ALIEN_COUNT"
  shows "let t = for_upto n collide_bullet (move_aliens (move_ship_and_bullets s));
             bl = bullets t ! b; al = aliens t ! i
         in rect_collide_int32 (b_x bl) (b_y bl) (b_w bl) (b_h bl) (a_x al) (a_y al) (a_w al) (a_h al)
            = rect_collide (b_x bl) (b_y bl) (b_w bl) (b_h bl) (a_x al) (a_y al) (a_w al) (a_h al)"
proof -
  have "fields_ok (for_upto n collide_bullet (move_aliens (move_ship_and_bullets s)))"
    using assms(1,2) by (rule collision_pass_in_range)
  then show ?thesis
    using assms(3,4) by (simp add: Let_def fields_ok_def hits_exact_in_range)
qed

end
